theory Spec2Isabelle
  imports Complex_Main "HOL-Library.Word"
begin

section \<open>The nimiqode engine: encode and decode orchestration\<close>

text \<open>
  A shallow embedding of the class \<open>Nimiqode\<close>: the two constructors
  \<open>_constructFromPayload\<close> (encode) and \<open>_constructFromScan\<close> (decode), the ring
  sizing loop \<open>_createHexagonRings\<close>, \<open>assignHexagonRingData\<close> and the masking loop
  \<open>_maskHexagonRings\<close>.

  The classes the engine calls (\<open>NimiqodeSpecification\<close>, \<open>HexagonRing\<close>, \<open>CRC16\<close>,
  \<open>NimiqodeHeader\<close>, \<open>LDPC\<close>, \<open>Masking\<close>) are not part of the sources at hand. Their
  constants and operations are the fields of the record \<open>env\<close>, a parameter of every
  function of the engine. The bit buffer class \<open>BitArray\<close> is modelled as a view into
  a store of buffers, so that views that share a buffer alias each other.

  JavaScript numbers are modelled as \<open>nat\<close> and \<open>int\<close> where the code counts bits,
  rings and indices, and as IEEE doubles for the error correction factor, its bound and
  the preliminary error correction length. The ring geometry, which the engine only
  hands to the missing class \<open>HexagonRing\<close>, is \<open>real\<close>.
\<close>

subsection \<open>JavaScript numbers\<close>

text \<open>
  A JavaScript number is \<open>NaN\<close>, an infinity, or a finite double: \<open>Double m e\<close> is the
  value \<open>m * 2 ^ e\<close>, and the doubles are the values with \<open>\<bar>m\<bar> < 2 ^ 53\<close> and
  \<open>- 1074 \<le> e \<le> 971\<close>. Negative zero is not told apart from zero: the engine compares
  such a number, multiplies it with a count, rounds it up and adds counts to it, and none
  of these tells the two zeros apart.
\<close>

datatype number = NaN | Infinity | NegInfinity | Double int int

text \<open>The number of a count.\<close>

definition toNumber :: "nat \<Rightarrow> number" where
  "toNumber n = Double (int n) 0"

text \<open>The operator \<open><\<close> on numbers; \<open>a > b\<close> is \<open>b < a\<close>. A comparison with \<open>NaN\<close> is
  false.\<close>

fun js_less :: "number \<Rightarrow> number \<Rightarrow> bool" where
  "js_less NaN y = False"
| "js_less x NaN = False"
| "js_less NegInfinity y = (y \<noteq> NegInfinity)"
| "js_less x NegInfinity = False"
| "js_less Infinity y = False"
| "js_less x Infinity = True"
| "js_less (Double m e) (Double m' e') =
     (m * 2 ^ nat (e - min e e') < m' * 2 ^ nat (e' - min e e'))"

text \<open>
  Rounding to the nearest double, ties to even: the exact value \<open>a * 2 ^ e\<close> keeps its
  53 leading bits, or fewer where the exponent would fall below \<open>- 1074\<close>, and a result
  of \<open>2 ^ 1024\<close> or more is an infinity.
\<close>

function bitLength :: "int \<Rightarrow> nat" where
  "bitLength a = (if a \<le> 0 then 0 else Suc (bitLength (a div 2)))"
  by pat_completeness auto
termination
  by (relation "measure nat") auto

declare bitLength.simps [simp del]

definition roundHalfEven :: "int \<Rightarrow> nat \<Rightarrow> int" where
  "roundHalfEven a k =
     (let q = a div 2 ^ k;
          r = a mod 2 ^ k
      in if 2 * r < 2 ^ k then q
         else if 2 * r > 2 ^ k then q + 1
         else if even q then q else q + 1)"

definition roundToDouble :: "int \<Rightarrow> int \<Rightarrow> number" where
  "roundToDouble a e =
     (let k = nat (max (int (bitLength \<bar>a\<bar>) - 53) (- 1074 - e));
          a' = roundHalfEven a k;
          e' = e + int k
      in if int (bitLength \<bar>a'\<bar>) + e' > 1024
         then (if a' < 0 then NegInfinity else Infinity)
         else Double a' e')"

text \<open>The product \<open>n * x\<close> of a count and a number, rounded as the operator \<open>*\<close> rounds
  it, and \<open>Math.ceil\<close>, which is exact.\<close>

fun js_times :: "nat \<Rightarrow> number \<Rightarrow> number" where
  "js_times n NaN = NaN"
| "js_times n Infinity = (if n = 0 then NaN else Infinity)"
| "js_times n NegInfinity = (if n = 0 then NaN else NegInfinity)"
| "js_times n (Double m e) = roundToDouble (int n * m) e"

fun Math_ceil :: "number \<Rightarrow> number" where
  "Math_ceil (Double m e) =
     Double (if 0 \<le> e then m * 2 ^ nat e else - ((- m) div 2 ^ nat (- e))) 0"
| "Math_ceil NaN = NaN"
| "Math_ceil Infinity = Infinity"
| "Math_ceil NegInfinity = NegInfinity"

text \<open>The sum \<open>n + x\<close> of a count and a number. Like the sums of counts it is taken
  exactly: the engine adds integers here, which a double holds exactly below
  \<open>2 ^ 53\<close>.\<close>

fun js_plus :: "nat \<Rightarrow> number \<Rightarrow> number" where
  "js_plus n (Double m e) =
     (if 0 \<le> e then Double (int n + m * 2 ^ nat e) 0
      else Double (int n * 2 ^ nat (- e) + m) e)"
| "js_plus n NaN = NaN"
| "js_plus n Infinity = Infinity"
| "js_plus n NegInfinity = NegInfinity"

subsection \<open>Bit buffers\<close>

type_synonym byte = "8 word"
type_synonym store = "bool list list"

text \<open>
  Modelled from the spec: the class \<open>BitArray\<close> is missing from the sources. The spec
  describes it as an addressable view over a bit range, with sub-range slicing (a view
  over a view), single-bit get and set, bulk conversion to a flat bit sequence, and a
  copy flag that produces an independent snapshot. A view is the address of its buffer in
  the store and a bit range of that buffer; its range checks are not modelled.
\<close>

record BitArray =
  buffer :: nat
  startOffset :: nat
  endOffset :: nat

definition store_get :: "store \<Rightarrow> nat \<Rightarrow> bool list" where
  "store_get h a = (if a < length h then h ! a else [])"

text \<open>Modelled from the spec: \<open>bitArray.length\<close>.\<close>

definition BitArray_length :: "BitArray \<Rightarrow> nat" where
  "BitArray_length ba = endOffset ba - startOffset ba"

text \<open>Modelled from the spec: \<open>new BitArray(length)\<close>, a fresh buffer of zero bits.\<close>

definition BitArray_new :: "store \<Rightarrow> nat \<Rightarrow> store \<times> BitArray" where
  "BitArray_new h n =
     (h @ [replicate n False], \<lparr>buffer = length h, startOffset = 0, endOffset = n\<rparr>)"

text \<open>Modelled from the spec: \<open>new BitArray(bitArray, start, end)\<close>, a view over a view.\<close>

definition BitArray_sub :: "BitArray \<Rightarrow> nat \<Rightarrow> nat \<Rightarrow> BitArray" where
  "BitArray_sub ba s e =
     \<lparr>buffer = buffer ba, startOffset = startOffset ba + s, endOffset = startOffset ba + e\<rparr>"

text \<open>Modelled from the spec: \<open>bitArray.toArray()\<close>, the bits of the view.\<close>

definition BitArray_toArray :: "store \<Rightarrow> BitArray \<Rightarrow> bool list" where
  "BitArray_toArray h ba =
     take (BitArray_length ba) (drop (startOffset ba) (store_get h (buffer ba)))"

text \<open>
  Modelled from the spec: \<open>new BitArray(bitArray, start, end, true)\<close>, an independent
  snapshot in a buffer of its own.
\<close>

definition BitArray_copy :: "store \<Rightarrow> BitArray \<Rightarrow> nat \<Rightarrow> nat \<Rightarrow> store \<times> BitArray" where
  "BitArray_copy h ba s e =
     (let bits = BitArray_toArray h (BitArray_sub ba s e)
      in (h @ [bits], \<lparr>buffer = length h, startOffset = 0, endOffset = length bits\<rparr>))"

text \<open>
  Writing through a view replaces the bits of its range and nothing else; a write
  outside the buffer is dropped.
\<close>

definition overwrite :: "bool list \<Rightarrow> nat \<Rightarrow> bool list \<Rightarrow> bool list" where
  "overwrite old s new = take s old @ take (length old - s) new @ drop (s + length new) old"

definition store_write :: "store \<Rightarrow> BitArray \<Rightarrow> bool list \<Rightarrow> store" where
  "store_write h ba new =
     (if buffer ba < length h
      then h[buffer ba := overwrite (h ! buffer ba) (startOffset ba) new]
      else h)"

text \<open>
  Modelled from the spec: the loop \<open>for (i < bitArray.length) bitArray.setValue(i, bits[i])\<close>;
  a missing array element is \<open>undefined\<close>, which is stored as a zero bit.
\<close>

definition BitArray_setValues :: "store \<Rightarrow> BitArray \<Rightarrow> bool list \<Rightarrow> store" where
  "BitArray_setValues h ba bits =
     store_write h ba (map (\<lambda>i. if i < length bits then bits ! i else False)
                           [0..<BitArray_length ba])"

text \<open>
  An operation of another class that changes a view in place (\<open>Masking.applyMask\<close>,
  \<open>NimiqodeHeader.write\<close>) is a function from the old bits of the view to its new bits.
  The view keeps its length: surplus bits are dropped, missing bits keep their value.
\<close>

definition fitLength :: "bool list \<Rightarrow> bool list \<Rightarrow> bool list" where
  "fitLength old new = take (length old) (new @ drop (length new) old)"

definition BitArray_update :: "store \<Rightarrow> BitArray \<Rightarrow> (bool list \<Rightarrow> bool list) \<Rightarrow> store" where
  "BitArray_update h ba f =
     (let old = BitArray_toArray h ba
      in store_write h ba (fitLength old (f old)))"

text \<open>
  Modelled from the spec: \<open>new BitArray(uint8Array)\<close> and the bytes behind such a view.
  The bit order inside a byte is a convention of the missing class; the most
  significant bit comes first here.
\<close>

definition byte_bits :: "byte \<Rightarrow> bool list" where
  "byte_bits b = rev (map (bit b) [0..<8])"

definition bits_byte :: "bool list \<Rightarrow> byte" where
  "bits_byte bits = horner_sum of_bool 2 (rev bits)"

definition Uint8Array_bits :: "byte list \<Rightarrow> bool list" where
  "Uint8Array_bits bytes = concat (map byte_bits bytes)"

fun bits_Uint8Array :: "bool list \<Rightarrow> byte list" where
  "bits_Uint8Array bits =
     (if length bits < 8 then []
      else bits_byte (take 8 bits) # bits_Uint8Array (drop 8 bits))"

subsection \<open>Rings, errors and the collaborators\<close>

text \<open>
  The arguments of \<open>new HexagonRing(...)\<close> in the order of the call in
  \<open>createHexagonRing\<close>, and the field \<open>data\<close> that \<open>assignHexagonRingData\<close> sets.
\<close>

record RingGeometry =
  radius :: real
  borderRadius :: real
  startEndOffset :: real
  slotDistance :: real
  slotLength :: real
  clockwiseFinderPatternLength :: real
  counterclockwiseFinderPatternLength :: real
  clockwiseFinderPatternSet :: bool
  counterclockwiseFinderPatternSet :: bool

record HexagonRing =
  geometry :: RingGeometry
  data :: "BitArray option"

text \<open>The messages of the \<open>Error\<close>s the engine throws, and the \<open>TypeError\<close> of reading
  \<open>bitCount\<close> of \<open>undefined\<close>. The error correction length that the encode constructor
  hands to the codec and to the header codec is a difference of counts, an \<open>int\<close>.\<close>

datatype error =
    Invalid_argument
  | Illegal_error_correction_factor
  | Data_too_long
  | Unsupported_version
  | Wrong_data_length
  | Failed_to_decode_payload
  | Checksum_mismatch
  | TypeError
  | Header_error

record 'm env =
  CURRENT_VERSION :: nat
  MAX_FACTOR_ERROR_CORRECTION_DATA :: number
  HEADER_LENGTH_PAYLOAD_LENGTH :: nat
  HEXRING_INNERMOST_RADIUS :: real
  HEXRING_RING_DISTANCE :: real
  HEXRING_BORDER_RADIUS :: real
  HEXRING_START_END_OFFSET :: real
  HEXRING_SLOT_DISTANCE :: real
  HEXRING_SLOT_LENGTH :: real
  HEXRING_FINDER_PATTERN_LENGTH_UNSET :: real
  HEXRING_FINDER_PATTERN_LENGTH_SET :: real
  HexagonRing_bitCount :: "RingGeometry \<Rightarrow> nat"
  crc16 :: "byte list \<Rightarrow> 16 word"
  calculateMaskCount :: "HexagonRing list \<Rightarrow> nat"
  NimiqodeHeader_calculateLength :: "nat \<Rightarrow> nat"
  NimiqodeHeader_write ::
    "nat \<Rightarrow> nat \<Rightarrow> int \<Rightarrow> 16 word \<Rightarrow> 'm list \<Rightarrow> bool list \<Rightarrow> bool list"
  NimiqodeHeader_read ::
    "bool list \<Rightarrow> HexagonRing list \<Rightarrow> (nat \<times> nat \<times> nat \<times> 16 word \<times> 'm list) option"
  LDPC_encode :: "bool list \<Rightarrow> int \<Rightarrow> bool list"
  LDPC_decode :: "bool list \<Rightarrow> nat \<Rightarrow> nat \<Rightarrow> bool list option"
  findBestMask :: "bool list \<Rightarrow> 'm"
  applyMask :: "'m \<Rightarrow> bool list \<Rightarrow> bool list"

definition bitCount :: "'m env \<Rightarrow> HexagonRing \<Rightarrow> nat" where
  "bitCount env hexRing = HexagonRing_bitCount env (geometry hexRing)"

text \<open>The fields \<open>_payload\<close>, \<open>_hexagonRings\<close> and \<open>_data\<close> of an instance; \<open>None\<close> is a
  field that has not been assigned.\<close>

record Nimiqode =
  this_payload :: "byte list option"
  this_hexagonRings :: "HexagonRing list option"
  this_data :: "BitArray option"

text \<open>A constructor either throws, and the result keeps the instance and the store as
  they are at the throw, or returns the instance and the store.\<close>

type_synonym result = "(error \<times> Nimiqode \<times> store) + (Nimiqode \<times> store)"

subsection \<open>Ring sizing\<close>

definition calculateLength ::
  "'m env \<Rightarrow> HexagonRing list \<Rightarrow> nat \<Rightarrow> number \<Rightarrow> number" where
  "calculateLength env hexRings lengthPayload lengthErrorCorrection =
     (let hexRingMaskCount = calculateMaskCount env hexRings
      in js_plus (NimiqodeHeader_calculateLength env hexRingMaskCount + lengthPayload)
           lengthErrorCorrection)"

definition createHexagonRing :: "'m env \<Rightarrow> nat \<Rightarrow> HexagonRing" where
  "createHexagonRing env index =
     \<lparr>geometry =
        \<lparr>radius = HEXRING_INNERMOST_RADIUS env + real index * HEXRING_RING_DISTANCE env,
         borderRadius = HEXRING_BORDER_RADIUS env,
         startEndOffset = HEXRING_START_END_OFFSET env,
         slotDistance = HEXRING_SLOT_DISTANCE env,
         slotLength = HEXRING_SLOT_LENGTH env,
         clockwiseFinderPatternLength =
           (if index = 0 then HEXRING_FINDER_PATTERN_LENGTH_UNSET env
            else HEXRING_FINDER_PATTERN_LENGTH_SET env),
         counterclockwiseFinderPatternLength = HEXRING_FINDER_PATTERN_LENGTH_SET env,
         clockwiseFinderPatternSet = (index \<noteq> 0),
         counterclockwiseFinderPatternSet = True\<rparr>,
      data = None\<rparr>"

text \<open>
  The \<open>do ... while\<close> loop of \<open>_createHexagonRings\<close>. Nothing in the engine bounds the
  number of rounds, so the loop is a partial function: \<open>None\<close> is a loop that never ends.
  The error correction length is the number that \<open>Math.ceil\<close> returned.
\<close>

partial_function (option) createHexagonRings_loop ::
  "'m env \<Rightarrow> nat \<Rightarrow> number \<Rightarrow> HexagonRing list \<Rightarrow> nat \<Rightarrow> nat \<Rightarrow> (HexagonRing list \<times> nat) option"
where
  "createHexagonRings_loop env payloadLength errorCorrectionLength hexagonRings totalBits
       hexagonRingCount =
     (let hexRing = createHexagonRing env hexagonRingCount;
          hexagonRings = hexagonRings @ [hexRing];
          totalBits = totalBits + bitCount env hexRing;
          hexagonRingCount = hexagonRingCount + 1
      in if js_less (toNumber totalBits)
              (calculateLength env hexagonRings payloadLength errorCorrectionLength)
            \<or> hexagonRingCount < 2
         then createHexagonRings_loop env payloadLength errorCorrectionLength hexagonRings
                totalBits hexagonRingCount
         else Some (hexagonRings, totalBits))"

declare createHexagonRings_loop.simps [code]

definition createHexagonRings ::
  "'m env \<Rightarrow> HexagonRing list \<Rightarrow> nat \<Rightarrow> number \<Rightarrow> (HexagonRing list \<times> nat) option"
where
  "createHexagonRings env hexagonRings payloadLength errorCorrectionLength =
     createHexagonRings_loop env payloadLength errorCorrectionLength hexagonRings 0 0"

subsection \<open>Ring data assignment\<close>

fun assignHexagonRingData_loop ::
  "'m env \<Rightarrow> HexagonRing list \<Rightarrow> BitArray \<Rightarrow> nat \<Rightarrow> HexagonRing list"
where
  "assignHexagonRingData_loop env [] dat handledBits = []"
| "assignHexagonRingData_loop env (hexRing # hexagonRings) dat handledBits =
     hexRing\<lparr>data := Some (BitArray_sub dat handledBits (handledBits + bitCount env hexRing))\<rparr>
       # assignHexagonRingData_loop env hexagonRings dat (handledBits + bitCount env hexRing)"

definition assignHexagonRingData ::
  "'m env \<Rightarrow> HexagonRing list \<Rightarrow> BitArray \<Rightarrow> HexagonRing list"
where
  "assignHexagonRingData env hexagonRings dat = assignHexagonRingData_loop env hexagonRings dat 0"

subsection \<open>Masking\<close>

text \<open>
  The \<open>for\<close> loop of \<open>_maskHexagonRings\<close>. \<open>givenMasks\<close> is \<open>None\<close> for JavaScript's
  \<open>null\<close>. A ring index below zero reads \<open>undefined\<close> from the array, and
  \<open>undefined.bitCount\<close> throws a \<open>TypeError\<close>; the error comes with the store as the
  rounds before it have left it.
\<close>

function maskHexagonRings_loop ::
  "'m env \<Rightarrow> HexagonRing list \<Rightarrow> 'm list option \<Rightarrow> nat \<Rightarrow> BitArray \<Rightarrow>
     nat \<Rightarrow> store \<Rightarrow> nat \<Rightarrow> 'm list \<Rightarrow> (error \<times> store) + (store \<times> 'm list)"
where
  "maskHexagonRings_loop env hexagonRings givenMasks maskCount dataToMask i h hexRingEnd masks =
     (if i < maskCount then
        (if int (length hexagonRings) - int i - 1 < 0 then Inl (TypeError, h)
         else
           let hexRing = hexagonRings ! (length hexagonRings - i - 1);
               hexRingDataToMask =
                 BitArray_sub dataToMask
                   (nat (max 0 (int hexRingEnd - int (bitCount env hexRing)))) hexRingEnd;
               mask = (case givenMasks of
                         Some gm \<Rightarrow> gm ! (length gm - i - 1)
                       | None \<Rightarrow> findBestMask env (BitArray_toArray h hexRingDataToMask));
               h = BitArray_update h hexRingDataToMask (applyMask env mask);
               hexRingEnd = hexRingEnd - BitArray_length hexRingDataToMask
           in maskHexagonRings_loop env hexagonRings givenMasks maskCount dataToMask
                (i + 1) h hexRingEnd (mask # masks))
      else Inr (h, masks))"
  by pat_completeness auto
termination
  by (relation "measure (\<lambda>(env, hexagonRings, givenMasks, maskCount, dataToMask, i, h,
                           hexRingEnd, masks). maskCount - i)") auto

definition maskHexagonRings ::
  "'m env \<Rightarrow> HexagonRing list \<Rightarrow> nat + 'm list \<Rightarrow> BitArray \<Rightarrow> store \<Rightarrow>
     (error \<times> store) + (store \<times> 'm list)"
where
  "maskHexagonRings env hexagonRings maskCountOrMasks dataToMask h =
     (let givenMasks = (case maskCountOrMasks of Inr ms \<Rightarrow> Some ms | Inl n \<Rightarrow> None);
          maskCount = (case maskCountOrMasks of Inr ms \<Rightarrow> length ms | Inl n \<Rightarrow> n);
          hexRingEnd = BitArray_length dataToMask
      in maskHexagonRings_loop env hexagonRings givenMasks maskCount dataToMask 0 h hexRingEnd [])"

subsection \<open>The encode constructor\<close>

definition constructFromPayload ::
  "'m env \<Rightarrow> store \<Rightarrow> byte list \<Rightarrow> number \<Rightarrow> nat \<Rightarrow> result option"
where
  "constructFromPayload env h payload errorCorrectionFactor version =
     (let this = \<lparr>this_payload = None, this_hexagonRings = None, this_data = None\<rparr> in
      if version \<noteq> CURRENT_VERSION env \<or> length payload = 0
      then Some (Inl (Invalid_argument, this, h))
      else if js_less errorCorrectionFactor (toNumber 0)
              \<or> js_less (MAX_FACTOR_ERROR_CORRECTION_DATA env) errorCorrectionFactor
      then Some (Inl (Illegal_error_correction_factor, this, h))
      else if length payload * 8 > 2 ^ HEADER_LENGTH_PAYLOAD_LENGTH env * 8
      then Some (Inl (Data_too_long, this, h))
      else
        let payloadBitArray = Uint8Array_bits payload;
            this = this\<lparr>this_payload := Some payload\<rparr>;
            preliminaryErrorCorrectionLength =
              Math_ceil (js_times (length payloadBitArray) errorCorrectionFactor);
            this = this\<lparr>this_hexagonRings := Some []\<rparr>
        in case createHexagonRings env [] (length payloadBitArray)
                  preliminaryErrorCorrectionLength of
             None \<Rightarrow> None
           | Some (hexagonRings, dataLength) \<Rightarrow>
               let this = this\<lparr>this_hexagonRings := Some hexagonRings\<rparr>;
                   checksum = crc16 env payload;
                   (h, dat) = BitArray_new h dataLength;
                   this = this\<lparr>this_data := Some dat\<rparr>;
                   hexRingMaskCount = calculateMaskCount env hexagonRings;
                   headerLength = NimiqodeHeader_calculateLength env hexRingMaskCount;
                   header = BitArray_sub dat 0 headerLength;
                   errorCorrectionLength =
                     int dataLength - int headerLength - int (length payloadBitArray);
                   encodedPayload =
                     BitArray_sub dat headerLength
                       (nat (int headerLength + int (length payloadBitArray)
                             + errorCorrectionLength));
                   encodedPayloadBits = LDPC_encode env payloadBitArray errorCorrectionLength;
                   h = BitArray_setValues h encodedPayload encodedPayloadBits
               in case maskHexagonRings env hexagonRings (Inl hexRingMaskCount) encodedPayload h of
                    Inl (e, h) \<Rightarrow> Some (Inl (e, this, h))
                  | Inr (h, hexRingMasks) \<Rightarrow>
                      let h = BitArray_update h header
                                (NimiqodeHeader_write env version (length payloadBitArray)
                                   errorCorrectionLength checksum hexRingMasks);
                          this = this\<lparr>this_hexagonRings :=
                                        Some (assignHexagonRingData env hexagonRings dat)\<rparr>
                      in Some (Inr (this, h)))"

subsection \<open>The decode constructor\<close>

definition constructFromScan ::
  "'m env \<Rightarrow> store \<Rightarrow> HexagonRing list \<Rightarrow> BitArray \<Rightarrow> result"
where
  "constructFromScan env h hexagonRings dat =
     (let this = \<lparr>this_payload = None, this_hexagonRings = Some hexagonRings,
                  this_data = Some dat\<rparr>;
          hexRingMaskCount = calculateMaskCount env hexagonRings;
          headerLength = NimiqodeHeader_calculateLength env hexRingMaskCount;
          header = BitArray_sub dat 0 headerLength
      in case NimiqodeHeader_read env (BitArray_toArray h header) hexagonRings of
           None \<Rightarrow> Inl (Header_error, this, h)
         | Some (version, payloadLength, errorCorrectionLength, checksum, hexRingMasks) \<Rightarrow>
             if version \<noteq> 0 then Inl (Unsupported_version, this, h)
             else if headerLength + payloadLength + errorCorrectionLength \<noteq> BitArray_length dat
             then Inl (Wrong_data_length, this, h)
             else
               let (h, encodedPayload) =
                     BitArray_copy h dat headerLength (BitArray_length dat)
               in case maskHexagonRings env hexagonRings (Inr hexRingMasks) encodedPayload h of
                    Inl (e, h) \<Rightarrow> Inl (e, this, h)
                  | Inr (h, unused) \<Rightarrow>
                      (case LDPC_decode env (BitArray_toArray h encodedPayload) payloadLength
                              errorCorrectionLength of
                         None \<Rightarrow> Inl (Failed_to_decode_payload, this, h)
                       | Some payloadBits \<Rightarrow>
                           let payloadBitArray =
                                 take (payloadLength div 8 * 8)
                                   (map (\<lambda>i. if i < length payloadBits then payloadBits ! i
                                             else False) [0..<payloadLength]);
                               this = this\<lparr>this_payload := Some (bits_Uint8Array payloadBitArray)\<rparr>
                           in if crc16 env (bits_Uint8Array payloadBitArray) \<noteq> checksum
                              then Inl (Checksum_mismatch, this, h)
                              else Inr (this, h)))"

section \<open>Notions for the statements\<close>

text \<open>The state of an instance at the entry of the encode constructor, and at the entry
  of the decode constructor.\<close>

definition unconstructed :: Nimiqode where
  "unconstructed = \<lparr>this_payload = None, this_hexagonRings = None, this_data = None\<rparr>"

definition scanned :: "HexagonRing list \<Rightarrow> BitArray \<Rightarrow> Nimiqode" where
  "scanned hexagonRings dat =
     \<lparr>this_payload = None, this_hexagonRings = Some hexagonRings, this_data = Some dat\<rparr>"

text \<open>The operator \<open><=\<close> on numbers, and a factor in the closed range from 0 to
  \<open>MAX_FACTOR_ERROR_CORRECTION_DATA\<close>.\<close>

definition js_leq :: "number \<Rightarrow> number \<Rightarrow> bool" where
  "js_leq a b \<longleftrightarrow> a \<noteq> NaN \<and> b \<noteq> NaN \<and> \<not> js_less b a"

definition validFactor :: "'m env \<Rightarrow> number \<Rightarrow> bool" where
  "validFactor env f \<longleftrightarrow>
     js_leq (toNumber 0) f \<and> js_leq f (MAX_FACTOR_ERROR_CORRECTION_DATA env)"

text \<open>The two messages that the encode constructor throws for a malformed payload,
  version or error correction factor.\<close>

definition invalidArgument :: "error \<Rightarrow> bool" where
  "invalidArgument e \<longleftrightarrow> e = Invalid_argument \<or> e = Illegal_error_correction_factor"

text \<open>The header length of a ring set, as both constructors compute it.\<close>

definition headerLengthOf :: "'m env \<Rightarrow> HexagonRing list \<Rightarrow> nat" where
  "headerLengthOf env hexagonRings =
     NimiqodeHeader_calculateLength env (calculateMaskCount env hexagonRings)"

text \<open>A view that lies inside an allocated buffer.\<close>

definition valid_view :: "store \<Rightarrow> BitArray \<Rightarrow> bool" where
  "valid_view h ba \<longleftrightarrow>
     buffer ba < length h \<and> startOffset ba \<le> endOffset ba
       \<and> endOffset ba \<le> length (h ! buffer ba)"

definition slice :: "'a list \<Rightarrow> nat \<Rightarrow> nat \<Rightarrow> 'a list" where
  "slice xs s e = take (e - s) (drop s xs)"

text \<open>
  The masking loop on the bits alone. \<open>cs\<close> lists the capacities of the rings that the
  rounds \<open>i\<close>, \<open>i + 1\<close>, ... visit, \<open>bits\<close> is the part of the region before
  \<open>hexRingEnd\<close>. The result is that part after masking and the masks of these rounds,
  the mask of the last round first.
\<close>

fun maskBits ::
  "'m env \<Rightarrow> 'm list option \<Rightarrow> nat \<Rightarrow> nat list \<Rightarrow> bool list \<Rightarrow> bool list \<times> 'm list"
where
  "maskBits env gm i [] bits = (bits, [])"
| "maskBits env gm i (c # cs) bits =
     (let s = length bits - c;
          w = drop s bits;
          mask = (case gm of Some ms \<Rightarrow> ms ! (length ms - i - 1) | None \<Rightarrow> findBestMask env w);
          r = maskBits env gm (i + 1) cs (take s bits)
      in (fst r @ fitLength w (applyMask env mask w), snd r @ [mask]))"

definition stepCapacities :: "'m env \<Rightarrow> HexagonRing list \<Rightarrow> nat \<Rightarrow> nat \<Rightarrow> nat list" where
  "stepCapacities env rings i maskCount =
     map (\<lambda>j. bitCount env (rings ! (length rings - j - 1))) [i..<maskCount]"

text \<open>The store that a constructor leaves behind, whether it throws or returns.\<close>

definition result_store :: "result \<Rightarrow> store" where
  "result_store r = (case r of Inl (e, this, h) \<Rightarrow> h | Inr (this, h) \<Rightarrow> h)"

text \<open>The rings with the indices \<open>k\<close>, ..., \<open>k + n - 1\<close>, the bit capacity of a ring
  set, and what the sizing loop has reached when it returns \<open>y\<close>.\<close>

definition ringsFrom :: "'m env \<Rightarrow> nat \<Rightarrow> nat \<Rightarrow> HexagonRing list" where
  "ringsFrom env k n = map (createHexagonRing env) [k..<k + n]"

definition capacity :: "'m env \<Rightarrow> HexagonRing list \<Rightarrow> nat" where
  "capacity env hexagonRings = sum_list (map (bitCount env) hexagonRings)"

definition sized :: "'m env \<Rightarrow> nat \<Rightarrow> number \<Rightarrow> HexagonRing list \<Rightarrow> nat \<Rightarrow> nat \<Rightarrow> HexagonRing list \<times> nat \<Rightarrow> bool" where
  "sized env pl ec rs t k y \<longleftrightarrow>
     (\<exists>n. 0 < n \<and> fst y = rs @ ringsFrom env k n \<and> snd y = t + capacity env (ringsFrom env k n)
        \<and> \<not> js_less (toNumber (snd y)) (calculateLength env (fst y) pl ec) \<and> 2 \<le> k + n)"

text \<open>
  The values that the encode constructor computes on its way: the payload bit length, the
  preliminary and the final error correction length, the bits that it copies from the
  codec into the payload and parity region, that region after masking together with the
  masks, the header as written over the zero bits of a fresh buffer, and the whole
  bit-stream.
\<close>

definition payloadBitLength :: "byte list \<Rightarrow> nat" where
  "payloadBitLength payload = length (Uint8Array_bits payload)"

definition preliminaryLength :: "byte list \<Rightarrow> number \<Rightarrow> number" where
  "preliminaryLength payload f = Math_ceil (js_times (payloadBitLength payload) f)"

definition finalLength :: "'m env \<Rightarrow> HexagonRing list \<Rightarrow> nat \<Rightarrow> byte list \<Rightarrow> int" where
  "finalLength env rings dataLength payload =
     int dataLength - int (headerLengthOf env rings) - int (payloadBitLength payload)"

definition codeword :: "'m env \<Rightarrow> HexagonRing list \<Rightarrow> nat \<Rightarrow> byte list \<Rightarrow> bool list" where
  "codeword env rings dataLength payload =
     (let bits = LDPC_encode env (Uint8Array_bits payload) (finalLength env rings dataLength payload)
      in map (\<lambda>i. if i < length bits then bits ! i else False)
           [0..<dataLength - headerLengthOf env rings])"

definition maskedCodeword ::
  "'m env \<Rightarrow> HexagonRing list \<Rightarrow> nat \<Rightarrow> byte list \<Rightarrow> bool list \<times> 'm list" where
  "maskedCodeword env rings dataLength payload =
     maskBits env None 0 (stepCapacities env rings 0 (calculateMaskCount env rings))
       (codeword env rings dataLength payload)"

definition writtenHeader ::
  "'m env \<Rightarrow> HexagonRing list \<Rightarrow> nat \<Rightarrow> byte list \<Rightarrow> nat \<Rightarrow> bool list" where
  "writtenHeader env rings dataLength payload version =
     fitLength (replicate (headerLengthOf env rings) False)
       (NimiqodeHeader_write env version (payloadBitLength payload)
          (finalLength env rings dataLength payload) (crc16 env payload)
          (snd (maskedCodeword env rings dataLength payload))
          (replicate (headerLengthOf env rings) False))"

definition encodedStream ::
  "'m env \<Rightarrow> HexagonRing list \<Rightarrow> nat \<Rightarrow> byte list \<Rightarrow> nat \<Rightarrow> bool list" where
  "encodedStream env rings dataLength payload version =
     writtenHeader env rings dataLength payload version
       @ fst (maskedCodeword env rings dataLength payload)"

definition wholeData :: "store \<Rightarrow> nat \<Rightarrow> BitArray" where
  "wholeData h dataLength = \<lparr>buffer = length h, startOffset = 0, endOffset = dataLength\<rparr>"

text \<open>
  The values of \<open>hexRingEnd\<close> and of the start of the sub-range when the masking loop
  visits the ring with index \<open>r\<close>, for a region of \<open>n\<close> bits: the end is \<open>n\<close> less
  the capacities of the rings outside of \<open>r\<close>, and the start is
  \<open>Math.max(0, hexRingEnd - hexRing.bitCount)\<close>.
\<close>

definition hexRingEndOf :: "'m env \<Rightarrow> HexagonRing list \<Rightarrow> nat \<Rightarrow> nat \<Rightarrow> nat" where
  "hexRingEndOf env hexagonRings n r = n - capacity env (drop (r + 1) hexagonRings)"

definition hexRingStartOf :: "'m env \<Rightarrow> HexagonRing list \<Rightarrow> nat \<Rightarrow> nat \<Rightarrow> nat" where
  "hexRingStartOf env hexagonRings n r =
     nat (max 0 (int (hexRingEndOf env hexagonRings n r) - int (bitCount env (hexagonRings ! r))))"

text \<open>The masking of a view: the bits and the masks that the rounds produce for the bits
  of the view, and the store with these bits in the place of the view.\<close>

definition maskResult ::
  "'m env \<Rightarrow> HexagonRing list \<Rightarrow> 'm list option \<Rightarrow> nat \<Rightarrow> BitArray \<Rightarrow> store
     \<Rightarrow> bool list \<times> 'm list" where
  "maskResult env hexagonRings gm maskCount d h =
     maskBits env gm 0 (stepCapacities env hexagonRings 0 maskCount) (BitArray_toArray h d)"

definition maskedStore ::
  "'m env \<Rightarrow> HexagonRing list \<Rightarrow> 'm list option \<Rightarrow> nat \<Rightarrow> BitArray \<Rightarrow> store \<Rightarrow> store" where
  "maskedStore env hexagonRings gm maskCount d h =
     h[buffer d := take (startOffset d) (h ! buffer d)
          @ fst (maskResult env hexagonRings gm maskCount d h)
          @ drop (endOffset d) (h ! buffer d)]"

text \<open>
  What the engine relies on in the missing classes: a mask keeps the length of a range
  and undoes itself; the codec returns the payload bits followed by the requested number
  of parity bits and recovers the payload bits from them; the mask count depends on the
  shape of the ring set only and is at most the number of rings; the header codec
  reads back what it wrote for version 0, the given lengths and a ring set of the given
  shape, and keeps the length of the header region; and every further ring carries more
  bits than it adds to the header.
\<close>

definition Masking_contract :: "'m env \<Rightarrow> bool" where
  "Masking_contract env \<longleftrightarrow>
     (\<forall>mask bits. length (applyMask env mask bits) = length bits
                   \<and> applyMask env mask (applyMask env mask bits) = bits)"

definition LDPC_contract :: "'m env \<Rightarrow> bool" where
  "LDPC_contract env \<longleftrightarrow>
     (\<forall>bits n. length (LDPC_encode env bits (int n)) = length bits + n
                \<and> LDPC_decode env (LDPC_encode env bits (int n)) (length bits) n = Some bits)"

definition MaskCount_contract :: "'m env \<Rightarrow> bool" where
  "MaskCount_contract env \<longleftrightarrow>
     (\<forall>rs. calculateMaskCount env rs \<le> length rs)
     \<and> (\<forall>rs rs'. map geometry rs = map geometry rs' \<longrightarrow>
            calculateMaskCount env rs = calculateMaskCount env rs')"

definition Header_contract :: "'m env \<Rightarrow> HexagonRing list \<Rightarrow> nat \<Rightarrow> nat \<Rightarrow> bool" where
  "Header_contract env rings payloadLength errorCorrectionLength \<longleftrightarrow>
     (\<forall>checksum masks old rs'.
        length masks = calculateMaskCount env rings \<longrightarrow>
        length old = headerLengthOf env rings \<longrightarrow>
        map geometry rs' = map geometry rings \<longrightarrow>
          length (NimiqodeHeader_write env 0 payloadLength (int errorCorrectionLength) checksum
                    masks old)
            = length old
          \<and> NimiqodeHeader_read env
              (NimiqodeHeader_write env 0 payloadLength (int errorCorrectionLength) checksum
                 masks old) rs'
            = Some (0, payloadLength, errorCorrectionLength, checksum, masks))"

definition Capacity_contract :: "'m env \<Rightarrow> bool" where
  "Capacity_contract env \<longleftrightarrow>
     (\<forall>n. headerLengthOf env (ringsFrom env 0 (Suc n))
            < headerLengthOf env (ringsFrom env 0 n) + bitCount env (createHexagonRing env n))"

section \<open>A sample of the collaborators\<close>

text \<open>
  A small instance of the missing classes, for evaluating the engine: rings of 64, 80,
  96, ... bits, a header of four fixed-width fields and one mask bit per ring, a
  systematic code whose parity bits are zero, a checksum that adds the bytes, and two
  masks (keep the bits, or invert them).
\<close>

definition nat_bits :: "nat \<Rightarrow> nat \<Rightarrow> bool list" where
  "nat_bits n k = rev (map (bit k) [0..<n])"

definition bits_nat :: "bool list \<Rightarrow> nat" where
  "bits_nat bits = horner_sum of_bool 2 (rev bits)"

definition word16_bits :: "16 word \<Rightarrow> bool list" where
  "word16_bits w = rev (map (bit w) [0..<16])"

definition bits_word16 :: "bool list \<Rightarrow> 16 word" where
  "bits_word16 bits = horner_sum of_bool 2 (rev bits)"

definition sample_write ::
  "nat \<Rightarrow> nat \<Rightarrow> int \<Rightarrow> 16 word \<Rightarrow> bool list \<Rightarrow> bool list \<Rightarrow> bool list"
where
  "sample_write version payloadLength errorCorrectionLength checksum hexRingMasks old =
     nat_bits 4 version @ nat_bits 8 payloadLength @ nat_bits 8 (nat errorCorrectionLength)
       @ word16_bits checksum @ hexRingMasks"

definition sample_read ::
  "bool list \<Rightarrow> HexagonRing list \<Rightarrow> (nat \<times> nat \<times> nat \<times> 16 word \<times> bool list) option"
where
  "sample_read bits hexagonRings =
     (if length bits \<noteq> 36 + length hexagonRings then None
      else Some (bits_nat (take 4 bits), bits_nat (take 8 (drop 4 bits)),
                 bits_nat (take 8 (drop 12 bits)), bits_word16 (take 16 (drop 20 bits)),
                 drop 36 bits))"

definition sample :: "bool env" where
  "sample =
     \<lparr>CURRENT_VERSION = 0,
      MAX_FACTOR_ERROR_CORRECTION_DATA = toNumber 1,
      HEADER_LENGTH_PAYLOAD_LENGTH = 4,
      HEXRING_INNERMOST_RADIUS = 64,
      HEXRING_RING_DISTANCE = 16,
      HEXRING_BORDER_RADIUS = 0,
      HEXRING_START_END_OFFSET = 0,
      HEXRING_SLOT_DISTANCE = 0,
      HEXRING_SLOT_LENGTH = 0,
      HEXRING_FINDER_PATTERN_LENGTH_UNSET = 0,
      HEXRING_FINDER_PATTERN_LENGTH_SET = 0,
      HexagonRing_bitCount = (\<lambda>g. nat \<lfloor>radius g\<rfloor>),
      crc16 = (\<lambda>bytes. sum_list (map ucast bytes)),
      calculateMaskCount = length,
      NimiqodeHeader_calculateLength = (\<lambda>maskCount. 36 + maskCount),
      NimiqodeHeader_write = sample_write,
      NimiqodeHeader_read = sample_read,
      LDPC_encode = (\<lambda>bits errorCorrectionLength.
                       bits @ replicate (nat errorCorrectionLength) False),
      LDPC_decode = (\<lambda>bits payloadLength errorCorrectionLength.
                       if length bits = payloadLength + errorCorrectionLength
                       then Some (take payloadLength bits) else None),
      findBestMask = (\<lambda>bits. length bits < 2 * length (filter id bits)),
      applyMask = (\<lambda>mask bits. if mask then map Not bits else bits)\<rparr>"

text \<open>The factor 1/2, and the factor 0.8928571428571429, whose product with 56 is
  rounded to 50.\<close>

definition half :: number where
  "half = Double 1 (- 1)"

definition rounded_factor :: number where
  "rounded_factor = Double 8042142191733029 (- 53)"

text \<open>The two rings that the sample sizes for a payload of one byte, with their data
  attached, the view of their bit-stream, and two bit-streams that such a scan may hold.\<close>

definition sample_scan_data :: BitArray where
  "sample_scan_data = \<lparr>buffer = 0, startOffset = 0, endOffset = 144\<rparr>"

definition sample_scan_rings :: "HexagonRing list" where
  "sample_scan_rings =
     assignHexagonRingData sample [createHexagonRing sample 0, createHexagonRing sample 1]
       sample_scan_data"

definition all_ones_scan :: store where
  "all_ones_scan = [replicate 144 True]"

definition version_zero_scan :: store where
  "version_zero_scan = [replicate 4 False @ replicate 140 True]"

text \<open>The bit-stream of the sample for the payload of the one byte 65 and the factor
  1/2: version 0, 8 payload bits, 98 error correction bits, checksum 65, two masks that
  keep the bits, the payload, and the parity bits.\<close>

definition sample_encoded :: store where
  "sample_encoded =
     [nat_bits 4 0 @ nat_bits 8 8 @ nat_bits 8 98 @ word16_bits 65 @ [False, False]
        @ byte_bits 65 @ replicate 98 False]"

text \<open>The instance that the sample constructs for that payload, and a scan of the
  innermost ring alone whose 64 bits hold a header, a payload byte and 19 parity bits.\<close>

definition sample_instance :: Nimiqode where
  "sample_instance =
     \<lparr>this_payload = Some [65], this_hexagonRings = Some sample_scan_rings,
      this_data = Some sample_scan_data\<rparr>"

definition single_ring_data :: BitArray where
  "single_ring_data = \<lparr>buffer = 0, startOffset = 0, endOffset = 64\<rparr>"

definition single_ring :: "HexagonRing list" where
  "single_ring = assignHexagonRingData sample [createHexagonRing sample 0] single_ring_data"

definition single_ring_scan :: store where
  "single_ring_scan =
     [nat_bits 4 0 @ nat_bits 8 8 @ nat_bits 8 19 @ word16_bits 65 @ [False]
        @ byte_bits 65 @ replicate 19 False]"

text \<open>A region of 50 bits, shorter than the outer ring of the sample alone, and the
  payload and parity region of the sample's bit-stream for one byte.\<close>

definition clipped_data :: BitArray where
  "clipped_data = \<lparr>buffer = 0, startOffset = 0, endOffset = 50\<rparr>"

definition clipped_store :: store where
  "clipped_store = [replicate 50 True]"

definition sample_region :: BitArray where
  "sample_region = \<lparr>buffer = 0, startOffset = 38, endOffset = 144\<rparr>"

section \<open>Bit buffers and views\<close>

lemma length_fitLength: "length (fitLength old new) = length old"
  by (simp add: fitLength_def)

lemma fitLength_same: "length new = length old \<Longrightarrow> fitLength old new = new"
  by (simp add: fitLength_def)

lemma length_overwrite: "length (overwrite old s new) = length old"
  by (simp add: overwrite_def)

lemma overwrite_in_range:
  "s + length new \<le> length old \<Longrightarrow> overwrite old s new = take s old @ new @ drop (s + length new) old"
  by (simp add: overwrite_def)

lemma toArray_valid:
  "valid_view h ba \<Longrightarrow> BitArray_toArray h ba = slice (h ! buffer ba) (startOffset ba) (endOffset ba)"
  by (simp add: valid_view_def BitArray_toArray_def slice_def store_get_def BitArray_length_def)

lemma length_toArray_valid:
  "valid_view h ba \<Longrightarrow> length (BitArray_toArray h ba) = BitArray_length ba"
  by (auto simp add: toArray_valid slice_def BitArray_length_def valid_view_def)

lemma valid_sub:
  "valid_view h ba \<Longrightarrow> s \<le> e \<Longrightarrow> e \<le> BitArray_length ba \<Longrightarrow> valid_view h (BitArray_sub ba s e)"
  by (auto simp add: valid_view_def BitArray_sub_def BitArray_length_def)

lemma store_write_valid:
  "valid_view h ba \<Longrightarrow> length new = BitArray_length ba \<Longrightarrow>
   store_write h ba new =
     h[buffer ba := take (startOffset ba) (h ! buffer ba) @ new @ drop (endOffset ba) (h ! buffer ba)]"
  by (auto simp add: store_write_def valid_view_def BitArray_length_def overwrite_def)

lemma update_valid:
  "valid_view h ba \<Longrightarrow>
   BitArray_update h ba f =
     h[buffer ba := take (startOffset ba) (h ! buffer ba)
        @ fitLength (slice (h ! buffer ba) (startOffset ba) (endOffset ba))
            (f (slice (h ! buffer ba) (startOffset ba) (endOffset ba)))
        @ drop (endOffset ba) (h ! buffer ba)]"
  by (simp add: BitArray_update_def Let_def store_write_valid length_fitLength length_toArray_valid
      toArray_valid[symmetric])

lemma byte_roundtrip: "bits_byte (byte_bits b) = b"
  unfolding bits_byte_def byte_bits_def
proof -
  have "horner_sum of_bool 2 (map (bit b) [0..<8]) = take_bit 8 b"
    by (rule horner_sum_bit_eq_take_bit)
  also have "take_bit 8 b = b"
    by (rule take_bit_length_eq[where 'a=8, simplified])
  finally show "horner_sum of_bool 2 (rev (rev (map (bit b) [0..<8]))) = b"
    by simp
qed

lemma length_byte_bits: "length (byte_bits b) = 8"
  by (simp add: byte_bits_def)

lemma Uint8Array_roundtrip: "bits_Uint8Array (Uint8Array_bits bytes) = bytes"
proof (induction bytes)
  case Nil
  show ?case by (simp add: Uint8Array_bits_def)
next
  case (Cons b bytes)
  have "Uint8Array_bits (b # bytes) = byte_bits b @ Uint8Array_bits bytes"
    by (simp add: Uint8Array_bits_def)
  then show ?case using Cons
    by (simp add: length_byte_bits byte_roundtrip del: bits_Uint8Array.simps add: bits_Uint8Array.simps[of "byte_bits b @ Uint8Array_bits bytes"])
qed

lemma length_Uint8Array_bits: "length (Uint8Array_bits bytes) = 8 * length bytes"
  by (induction bytes) (simp_all add: Uint8Array_bits_def length_byte_bits)

section \<open>The masking loop\<close>

lemma length_maskBits: "length (fst (maskBits env gm i cs bits)) = length bits"
  by (induction cs arbitrary: i bits) (auto simp: Let_def length_fitLength)

lemma length_slice: "e \<le> length xs \<Longrightarrow> length (slice xs s e) = e - s"
  by (auto simp: slice_def)

lemma take_mid_drop: "take s xs @ take e (drop s xs) @ drop (s + e) xs = xs"
proof -
  have d: "drop (s + e) xs = drop e (drop s xs)" by (simp add: add.commute)
  show ?thesis unfolding d by (simp only: append_take_drop_id)
qed

lemma stepCapacities_Cons:
  "i < maskCount \<Longrightarrow> stepCapacities env rings i maskCount =
     bitCount env (rings ! (length rings - i - 1)) # stepCapacities env rings (i + 1) maskCount"
  by (simp add: stepCapacities_def upt_conv_Cons)

lemma loop_char:
  "valid_view h d \<Longrightarrow> e \<le> BitArray_length d \<Longrightarrow> maskCount \<le> length rings \<Longrightarrow> n = maskCount - i \<Longrightarrow>
   maskHexagonRings_loop env rings gm maskCount d i h e acc =
     Inr (h[buffer d := take (startOffset d) (h ! buffer d)
              @ fst (maskBits env gm i (stepCapacities env rings i maskCount)
                       (slice (h ! buffer d) (startOffset d) (startOffset d + e)))
              @ drop (startOffset d + e) (h ! buffer d)],
          snd (maskBits env gm i (stepCapacities env rings i maskCount)
                       (slice (h ! buffer d) (startOffset d) (startOffset d + e))) @ acc)"
proof (induction n arbitrary: i h e acc)
  case 0
  then have "\<not> i < maskCount" by simp
  moreover from this have "stepCapacities env rings i maskCount = []"
    by (simp add: stepCapacities_def)
  moreover have "startOffset d + e \<le> length (h ! buffer d)" "buffer d < length h"
    using 0 by (auto simp: valid_view_def BitArray_length_def)
  ultimately show ?case
    by (simp add: slice_def take_mid_drop)
next
  case (Suc n)
  define B where "B = h ! buffer d"
  define o' where "o' = startOffset d"
  define c where "c = bitCount env (rings ! (length rings - i - 1))"
  define v where "v = BitArray_sub d (e - c) e"
  define W where "W = slice B (o' + (e - c)) (o' + e)"
  define mask where "mask = (case gm of Some ms \<Rightarrow> ms ! (length ms - i - 1) | None \<Rightarrow> findBestMask env W)"
  define W' where "W' = fitLength W (applyMask env mask W)"
  define h1 where "h1 = h[buffer d := take (o' + (e - c)) B @ W' @ drop (o' + e) B]"
  from Suc.prems have i: "i < maskCount" "i < length rings" by simp_all
  have bounds: "o' + e \<le> length B" "buffer d < length h" "o' \<le> endOffset d" "endOffset d \<le> length B"
    using Suc.prems by (auto simp: valid_view_def BitArray_length_def B_def o'_def)
  have vv: "valid_view h v"
    unfolding v_def using Suc.prems by (intro valid_sub) auto
  have v_off: "buffer v = buffer d" "startOffset v = o' + (e - c)" "endOffset v = o' + e"
    by (simp_all add: v_def BitArray_sub_def o'_def)
  have v_len: "BitArray_length v = e - (e - c)"
    by (simp add: BitArray_length_def v_off)
  have toA: "BitArray_toArray h v = W"
    using toArray_valid[OF vv] by (simp add: v_off W_def B_def)
  have upd: "BitArray_update h v (applyMask env mask) = h1"
    using update_valid[OF vv] by (simp add: v_off h1_def W'_def W_def B_def)
  have lenW': "length W' = e - (e - c)"
    using bounds by (simp add: W'_def length_fitLength W_def length_slice)
  have B1: "h1 ! buffer d = take (o' + (e - c)) B @ W' @ drop (o' + e) B"
    using bounds by (simp add: h1_def)
  have lenB1: "length (h1 ! buffer d) = length B"
    using bounds lenW' by (simp add: B1)
  have valid1: "valid_view h1 d"
    using Suc.prems(1) lenB1 by (simp add: valid_view_def h1_def B_def)
  have e1: "e - c \<le> BitArray_length d" using Suc.prems by simp
  have n1: "n = maskCount - (i + 1)" using Suc.prems by simp
  have cond: "(int (length rings) - int i - 1 < 0) = False" using i by simp
  have eq1: "nat (max 0 (int e - int (bitCount env (rings ! (length rings - i - 1))))) = e - c"
    by (simp add: c_def)
  have eq2: "BitArray_sub d (e - c) e = v" by (simp only: v_def)
  have eq4: "(case gm of Some ms \<Rightarrow> ms ! (length ms - i - 1) | None \<Rightarrow> findBestMask env W) = mask"
    by (simp only: mask_def)
  have eq6: "e - BitArray_length v = e - c" by (simp add: v_len)
  have step: "maskHexagonRings_loop env rings gm maskCount d i h e acc =
      maskHexagonRings_loop env rings gm maskCount d (i + 1) h1 (e - c) (mask # acc)"
    by (subst maskHexagonRings_loop.simps)
       (simp only: i if_True if_False Let_def cond eq1 eq2 toA eq4 upd eq6)
  have pre: "slice (h1 ! buffer d) o' (o' + (e - c)) = slice B o' (o' + (e - c))"
    using bounds by (simp add: B1 slice_def drop_take)
  have tk: "take o' (h1 ! buffer d) = take o' B"
    using bounds by (simp add: B1)
  have dr: "drop (o' + (e - c)) (h1 ! buffer d) = W' @ drop (o' + e) B"
    using bounds by (simp add: B1)
  have caps: "stepCapacities env rings i maskCount = c # stepCapacities env rings (i + 1) maskCount"
    using i by (simp add: stepCapacities_Cons c_def)
  have lenS: "length (slice B o' (o' + e)) = e" using bounds by (simp add: length_slice)
  have w_eq: "drop (e - c) (slice B o' (o' + e)) = W"
    using bounds by (simp add: slice_def W_def drop_take add.commute)
  have t_eq: "take (e - c) (slice B o' (o' + e)) = slice B o' (o' + (e - c))"
    using bounds by (simp add: slice_def min_def)
  have mb: "maskBits env gm i (c # stepCapacities env rings (i + 1) maskCount) (slice B o' (o' + e)) =
     (fst (maskBits env gm (i + 1) (stepCapacities env rings (i + 1) maskCount) (slice B o' (o' + (e - c)))) @ W',
      snd (maskBits env gm (i + 1) (stepCapacities env rings (i + 1) maskCount) (slice B o' (o' + (e - c)))) @ [mask])"
    by (simp add: Let_def lenS w_eq t_eq mask_def W'_def cong: option.case_cong)
  define R where "R = maskBits env gm (i + 1) (stepCapacities env rings (i + 1) maskCount)
                         (slice B o' (o' + (e - c)))"
  have IH: "maskHexagonRings_loop env rings gm maskCount d (i + 1) h1 (e - c) (mask # acc) =
      Inr (h1[buffer d := take o' B @ fst R @ W' @ drop (o' + e) B], snd R @ mask # acc)"
    using Suc.IH[OF valid1 e1 Suc.prems(3) n1, of "mask # acc"]
    by (simp only: o'_def[symmetric] pre tk dr R_def)
  have mb': "maskBits env gm i (stepCapacities env rings i maskCount) (slice B o' (o' + e)) =
      (fst R @ W', snd R @ [mask])"
    by (simp only: caps mb R_def)
  have ov: "\<And>X. h1[buffer d := X] = h[buffer d := X]" by (simp add: h1_def)
  show ?case
    unfolding B_def[symmetric] o'_def[symmetric]
    by (simp only: step IH mb' fst_conv snd_conv ov append_assoc append.simps)
qed

section \<open>Numbers\<close>

lemma js_less_NaN_right: "js_less x NaN = False"
  by (cases x) simp_all


lemma js_less_toNumber_plus:
  "js_less (toNumber t) (js_plus n (Double c 0)) \<longleftrightarrow> int t < int n + c"
  by (simp add: toNumber_def)

lemma js_less_zero: "js_less (Double m e) (toNumber 0) \<longleftrightarrow> m < 0"
proof -
  have "(m * 2 ^ nat (e - min e 0) < 0) = (m < 0)"
    by (simp add: mult_less_0_iff)
  then show ?thesis by (simp add: toNumber_def)
qed

lemma roundHalfEven_nonneg: "0 \<le> a \<Longrightarrow> 0 \<le> roundHalfEven a k"
  by (simp add: roundHalfEven_def Let_def pos_imp_zdiv_nonneg_iff)

lemma roundToDouble_nonneg:
  assumes "0 \<le> a"
  shows "roundToDouble a e = Infinity \<or> (\<exists>a' e'. roundToDouble a e = Double a' e' \<and> 0 \<le> a')"
proof -
  define k where "k = nat (max (int (bitLength \<bar>a\<bar>) - 53) (- 1074 - e))"
  have "0 \<le> roundHalfEven a k" using assms by (rule roundHalfEven_nonneg)
  then show ?thesis
    by (simp add: roundToDouble_def Let_def k_def[symmetric])
qed

lemma Math_ceil_nonneg:
  assumes "0 \<le> m"
  shows "\<exists>c. Math_ceil (Double m e) = Double c 0 \<and> 0 \<le> c"
proof (cases "0 \<le> e")
  case True
  with assms show ?thesis by simp
next
  case False
  have "(- m) div 2 ^ nat (- e) \<le> 0"
    using assms by (intro div_nonpos_pos_le0) simp_all
  with False show ?thesis by simp
qed

lemma calculateLength_Double:
  "calculateLength env rings pl (Double c 0)
     = Double (int (headerLengthOf env rings) + int pl + c) 0"
  by (simp add: calculateLength_def headerLengthOf_def Let_def)

lemma calculateLength_NaN: "calculateLength env rings pl NaN = NaN"
  by (simp add: calculateLength_def Let_def)


lemma fits_Double:
  "js_less (toNumber t) (calculateLength env rings pl (Double c 0))
     \<longleftrightarrow> int t < int (headerLengthOf env rings) + int pl + c"
  by (simp add: calculateLength_Double toNumber_def)

text \<open>The preliminary error correction length of a factor that passes the range check:
  \<open>NaN\<close> for the factor \<open>NaN\<close>, an infinity when the product overflows, and a count
  otherwise.\<close>

lemma preliminaryLength_cases:
  assumes "\<not> js_less f (toNumber 0)" and "payload \<noteq> []"
  shows "(f = NaN \<and> preliminaryLength payload f = NaN)
       \<or> (f \<noteq> NaN \<and> preliminaryLength payload f = Infinity)
       \<or> (f \<noteq> NaN \<and> (\<exists>c. preliminaryLength payload f = Double c 0 \<and> 0 \<le> c))"
proof (cases f)
  case NaN
  then show ?thesis by (simp add: preliminaryLength_def)
next
  case Infinity
  have "payloadBitLength payload \<noteq> 0"
    using assms(2) by (cases payload) (simp_all add: payloadBitLength_def Uint8Array_bits_def byte_bits_def)
  with Infinity show ?thesis by (simp add: preliminaryLength_def)
next
  case NegInfinity
  with assms(1) show ?thesis by (simp add: toNumber_def)
next
  case (Double m e)
  with assms(1) have m: "0 \<le> m" by (simp add: js_less_zero)
  then have "0 \<le> int (payloadBitLength payload) * m" by simp
  from roundToDouble_nonneg[OF this, of e]
  show ?thesis
  proof
    assume "roundToDouble (int (payloadBitLength payload) * m) e = Infinity"
    with Double show ?thesis by (simp add: preliminaryLength_def)
  next
    assume "\<exists>a' e'. roundToDouble (int (payloadBitLength payload) * m) e = Double a' e' \<and> 0 \<le> a'"
    then obtain a' e' where r: "roundToDouble (int (payloadBitLength payload) * m) e = Double a' e'"
      and a': "0 \<le> a'" by blast
    from Math_ceil_nonneg[OF a', of e'] obtain c where
      "Math_ceil (Double a' e') = Double c 0" "0 \<le> c" by blast
    with Double r show ?thesis by (simp add: preliminaryLength_def)
  qed
qed

section \<open>The ring sizing loop\<close>

lemma ringsFrom_Suc: "ringsFrom env k (Suc n) = createHexagonRing env k # ringsFrom env (Suc k) n"
  by (simp add: ringsFrom_def upt_conv_Cons del: upt_Suc)

lemma capacity_Cons: "capacity env (r # rs) = bitCount env r + capacity env rs"
  by (simp add: capacity_def)

lemma capacity_Nil: "capacity env [] = 0"
  by (simp add: capacity_def)



lemma sized_step:
  assumes IH: "\<And>env pl ec rs t k y. loop env pl ec rs t k = Some y \<Longrightarrow> sized env pl ec rs t k y"
    and body: "(let hexRing = createHexagonRing env k;
          hexagonRings = rs @ [hexRing];
          totalBits = t + bitCount env hexRing;
          hexagonRingCount = k + 1
      in if js_less (toNumber totalBits) (calculateLength env hexagonRings pl ec)
            \<or> hexagonRingCount < 2
         then loop env pl ec hexagonRings totalBits hexagonRingCount
         else Some (hexagonRings, totalBits)) = Some y"
  shows "sized env pl ec rs t k y"
proof -
  let ?ring = "createHexagonRing env k"
  let ?c = "js_less (toNumber (t + bitCount env ?ring)) (calculateLength env (rs @ [?ring]) pl ec)
              \<or> k + 1 < 2"
  from body have body:
    "(if ?c then loop env pl ec (rs @ [?ring]) (t + bitCount env ?ring) (k + 1)
      else Some (rs @ [?ring], t + bitCount env ?ring)) = Some y"
    by (simp only: Let_def)
  show ?thesis
  proof (cases ?c)
    case True
    with body have "loop env pl ec (rs @ [?ring]) (t + bitCount env ?ring) (k + 1) = Some y"
      by (simp only: if_True)
    from IH[OF this, unfolded sized_def] obtain n where n: "0 < n"
      "fst y = (rs @ [?ring]) @ ringsFrom env (k + 1) n"
      "snd y = t + bitCount env ?ring + capacity env (ringsFrom env (k + 1) n)"
      "\<not> js_less (toNumber (snd y)) (calculateLength env (fst y) pl ec)" "2 \<le> k + 1 + n"
      by blast
    have "fst y = rs @ ringsFrom env k (Suc n)"
      using n(2) by (simp add: ringsFrom_Suc)
    moreover have "snd y = t + capacity env (ringsFrom env k (Suc n))"
      using n(3) by (simp add: ringsFrom_Suc capacity_Cons)
    moreover have "2 \<le> k + Suc n" using n(5) by simp
    ultimately show ?thesis unfolding sized_def using n(4) by blast
  next
    case False
    with body have y: "y = (rs @ [?ring], t + bitCount env ?ring)"
      by (simp only: if_False option.inject)
    have r1: "ringsFrom env k (Suc 0) = [?ring]"
      by (simp add: ringsFrom_def)
    have "fst y = rs @ ringsFrom env k (Suc 0)"
      by (simp add: y r1)
    moreover have "snd y = t + capacity env (ringsFrom env k (Suc 0))"
      by (simp add: y r1 capacity_def)
    moreover have "\<not> js_less (toNumber (snd y)) (calculateLength env (fst y) pl ec)"
      using False by (simp add: y)
    moreover have "2 \<le> k + Suc 0" using False by simp
    ultimately show ?thesis unfolding sized_def by blast
  qed
qed

lemma sizing_result:
  assumes "createHexagonRings_loop env pl ec rs t k = Some y"
  shows "sized env pl ec rs t k y"
  by (rule createHexagonRings_loop.raw_induct[where P = sized, OF sized_step assms])

lemma sizing_terminates:
  "d = n - k \<Longrightarrow> k < n \<Longrightarrow> 2 \<le> n \<Longrightarrow>
   \<not> js_less (toNumber (t + capacity env (ringsFrom env k (n - k))))
         (calculateLength env (rs @ ringsFrom env k (n - k)) pl ec) \<Longrightarrow>
   \<exists>y. createHexagonRings_loop env pl ec rs t k = Some y"
proof (induction d arbitrary: k rs t)
  case 0
  then show ?case by simp
next
  case (Suc d)
  define ring where "ring = createHexagonRing env k"
  from Suc.prems have nk: "n - k = Suc (n - Suc k)" by simp
  show ?case
  proof (cases "js_less (toNumber (t + bitCount env ring)) (calculateLength env (rs @ [ring]) pl ec)
                  \<or> k + 1 < 2")
    case False
    then show ?thesis
      by (subst createHexagonRings_loop.simps) (simp add: Let_def ring_def)
  next
    case True
    have "Suc k < n"
    proof (rule ccontr)
      assume "\<not> Suc k < n"
      with Suc.prems have "n = Suc k" by simp
      with Suc.prems(4) True Suc.prems(3) show False
        by (simp add: ringsFrom_def capacity_def ring_def)
    qed
    moreover have "d = n - Suc k" using Suc.prems by simp
    moreover have "\<not> js_less (toNumber ((t + bitCount env ring)
                                   + capacity env (ringsFrom env (Suc k) (n - Suc k))))
           (calculateLength env ((rs @ [ring]) @ ringsFrom env (Suc k) (n - Suc k)) pl ec)"
      using Suc.prems(4) unfolding nk
      by (simp add: ringsFrom_Suc capacity_Cons ring_def add.assoc)
    ultimately have "\<exists>y. createHexagonRings_loop env pl ec (rs @ [ring]) (t + bitCount env ring) (Suc k) = Some y"
      using Suc.IH Suc.prems(3) by blast
    with True show ?thesis
      by (subst createHexagonRings_loop.simps) (simp add: Let_def ring_def)
  qed
qed

lemma createHexagonRings_result:
  assumes "createHexagonRings env [] pl ec = Some (rings, dataLength)"
  shows "\<exists>n. 2 \<le> n \<and> rings = ringsFrom env 0 n \<and> dataLength = capacity env rings
             \<and> \<not> js_less (toNumber dataLength) (calculateLength env rings pl ec)"
  using sizing_result[OF assms[unfolded createHexagonRings_def]] unfolding sized_def by auto

lemma createHexagonRings_terminates:
  assumes "2 \<le> n"
    and "\<not> js_less (toNumber (capacity env (ringsFrom env 0 n)))
               (calculateLength env (ringsFrom env 0 n) pl ec)"
  shows "\<exists>rings dataLength. createHexagonRings env [] pl ec = Some (rings, dataLength)"
proof -
  have "\<exists>y. createHexagonRings_loop env pl ec [] 0 0 = Some y"
    using assms by (intro sizing_terminates[where n = n]) simp_all
  then show ?thesis by (auto simp: createHexagonRings_def)
qed

text \<open>When every further ring carries more bits than it adds to the header, the capacity
  outgrows the header, and the loop ends for every count of error correction bits.\<close>

lemma ringsFrom_snoc: "ringsFrom env 0 (Suc n) = ringsFrom env 0 n @ [createHexagonRing env n]"
  by (simp add: ringsFrom_def)

lemma capacity_snoc: "capacity env (rs @ [r]) = capacity env rs + bitCount env r"
  by (simp add: capacity_def)

lemma capacity_outgrows_header:
  assumes "Capacity_contract env"
  shows "headerLengthOf env (ringsFrom env 0 n) + n
           \<le> headerLengthOf env (ringsFrom env 0 0) + capacity env (ringsFrom env 0 n)"
proof (induction n)
  case 0
  show ?case by (simp add: ringsFrom_def capacity_def)
next
  case (Suc n)
  from assms have "headerLengthOf env (ringsFrom env 0 (Suc n))
      < headerLengthOf env (ringsFrom env 0 n) + bitCount env (createHexagonRing env n)"
    unfolding Capacity_contract_def by blast
  with Suc show ?case
    by (simp add: ringsFrom_snoc[of env n] capacity_snoc)
qed

lemma createHexagonRings_by_contract:
  assumes "Capacity_contract env" and "0 \<le> c"
  shows "\<exists>rings dataLength. createHexagonRings env [] pl (Double c 0) = Some (rings, dataLength)"
proof -
  define n where "n = 2 + headerLengthOf env (ringsFrom env 0 0) + pl + nat c"
  have "2 \<le> n" by (simp add: n_def)
  moreover have "\<not> js_less (toNumber (capacity env (ringsFrom env 0 n)))
               (calculateLength env (ringsFrom env 0 n) pl (Double c 0))"
    using capacity_outgrows_header[OF assms(1), of n] assms(2)
    by (simp add: fits_Double n_def)
  ultimately show ?thesis by (rule createHexagonRings_terminates)
qed

section \<open>The masking function\<close>

lemma loop_too_many_masks:
  "d = length rings - i \<Longrightarrow> i \<le> length rings \<Longrightarrow> length rings < maskCount \<Longrightarrow>
   \<exists>h'. maskHexagonRings_loop env rings gm maskCount dm i h e acc = Inl (TypeError, h')"
proof (induction d arbitrary: i h e acc)
  case 0
  then show ?case by (subst maskHexagonRings_loop.simps) simp
next
  case (Suc d)
  then have c: "i < maskCount" "\<not> int (length rings) - int i - 1 < 0" by simp_all
  have rec: "\<And>h e acc. \<exists>h'. maskHexagonRings_loop env rings gm maskCount dm (i + 1) h e acc
                            = Inl (TypeError, h')"
    using Suc.prems by (intro Suc.IH) simp_all
  show ?case
    apply (subst maskHexagonRings_loop.simps)
    apply (simp only: c if_True if_False Let_def)
    apply (rule rec)
    done
qed

lemma maskHexagonRings_too_many_masks:
  "length rings < maskCount \<Longrightarrow>
   \<exists>h'. maskHexagonRings env rings (Inl maskCount) dm h = Inl (TypeError, h')"
  unfolding maskHexagonRings_def Let_def
  by (simp add: loop_too_many_masks del: maskHexagonRings_loop.simps)

lemma maskHexagonRings_char:
  assumes "valid_view h d" and "maskCount \<le> length rings"
    and "mcm = Inl maskCount \<and> gm = None \<or> (\<exists>ms. mcm = Inr ms \<and> gm = Some ms \<and> length ms = maskCount)"
  shows "maskHexagonRings env rings mcm d h =
     Inr (h[buffer d := take (startOffset d) (h ! buffer d)
              @ fst (maskBits env gm 0 (stepCapacities env rings 0 maskCount) (BitArray_toArray h d))
              @ drop (endOffset d) (h ! buffer d)],
          snd (maskBits env gm 0 (stepCapacities env rings 0 maskCount) (BitArray_toArray h d)))"
proof -
  have eo: "startOffset d + BitArray_length d = endOffset d"
    using assms(1) by (simp add: valid_view_def BitArray_length_def)
  have "maskHexagonRings env rings mcm d h
          = maskHexagonRings_loop env rings gm maskCount d 0 h (BitArray_length d) []"
    using assms(3) by (auto simp: maskHexagonRings_def Let_def simp del: maskHexagonRings_loop.simps)
  also have "\<dots> = Inr (h[buffer d := take (startOffset d) (h ! buffer d)
              @ fst (maskBits env gm 0 (stepCapacities env rings 0 maskCount)
                       (slice (h ! buffer d) (startOffset d) (startOffset d + BitArray_length d)))
              @ drop (startOffset d + BitArray_length d) (h ! buffer d)],
          snd (maskBits env gm 0 (stepCapacities env rings 0 maskCount)
                       (slice (h ! buffer d) (startOffset d) (startOffset d + BitArray_length d))) @ [])"
    by (rule loop_char[OF assms(1) order_refl assms(2) refl])
  finally show ?thesis
    by (simp add: eo toArray_valid[OF assms(1)])
qed

section \<open>The rounds of the masking loop\<close>

lemma length_snd_maskBits: "length (snd (maskBits env gm i cs bits)) = length cs"
  by (induction cs arbitrary: i bits) (auto simp: Let_def)

lemma slice_append_left:
  "e \<le> length xs \<Longrightarrow> slice (xs @ ys) s e = slice xs s e"
  by (simp add: slice_def)

lemma slice_take:
  "e \<le> n \<Longrightarrow> slice (take n xs) s e = slice xs s e"
  by (simp add: slice_def drop_take min_def)

lemma maskBits_untouched:
  "take (length bits - sum_list cs) (fst (maskBits env gm i cs bits))
     = take (length bits - sum_list cs) bits"
proof (induction cs arbitrary: i bits)
  case Nil
  show ?case by simp
next
  case (Cons c cs)
  have l: "length (fst (maskBits env gm (i + 1) cs (take (length bits - c) bits))) = length bits - c"
    by (simp add: length_maskBits)
  have "take (length bits - (c + sum_list cs)) (fst (maskBits env gm (i + 1) cs (take (length bits - c) bits)))
        = take (length bits - (c + sum_list cs)) (take (length bits - c) bits)"
    using Cons.IH[where i = "i + 1" and bits = "take (length bits - c) bits"] by (simp add: diff_diff_left)
  then show ?case
    using l by (simp add: Let_def min_def)
qed


lemma maskBits_round:
  "j < length cs \<Longrightarrow>
   slice (fst (maskBits env gm i cs bits))
       (length bits - sum_list (take j cs) - cs ! j) (length bits - sum_list (take j cs))
     = fitLength (slice bits (length bits - sum_list (take j cs) - cs ! j)
                     (length bits - sum_list (take j cs)))
         (applyMask env (snd (maskBits env gm i cs bits) ! (length cs - 1 - j))
            (slice bits (length bits - sum_list (take j cs) - cs ! j)
               (length bits - sum_list (take j cs))))
   \<and> snd (maskBits env gm i cs bits) ! (length cs - 1 - j)
     = (case gm of
          Some ms \<Rightarrow> ms ! (length ms - (i + j) - 1)
        | None \<Rightarrow> findBestMask env
                    (slice bits (length bits - sum_list (take j cs) - cs ! j)
                       (length bits - sum_list (take j cs))))"
proof (induction cs arbitrary: i bits j)
  case Nil
  then show ?case by simp
next
  case (Cons c cs)
  define L where "L = length bits"
  define bits' where "bits' = take (L - c) bits"
  define w0 where "w0 = drop (L - c) bits"
  define mask where "mask = (case gm of Some ms \<Rightarrow> ms ! (length ms - i - 1)
                               | None \<Rightarrow> findBestMask env w0)"
  define W' where "W' = fitLength w0 (applyMask env mask w0)"
  define r' where "r' = maskBits env gm (i + 1) cs bits'"
  have r: "maskBits env gm i (c # cs) bits = (fst r' @ W', snd r' @ [mask])"
    by (simp add: Let_def r'_def W'_def mask_def w0_def bits'_def L_def cong: option.case_cong)
  have lb': "length bits' = L - c" by (simp add: bits'_def L_def)
  have lf: "length (fst r') = L - c" by (simp add: r'_def length_maskBits lb')
  have ls: "length (snd r') = length cs" by (simp add: r'_def length_snd_maskBits)
  have lw0: "length w0 = L - (L - c)" by (simp add: w0_def L_def)
  have lW': "length W' = L - (L - c)" by (simp add: W'_def length_fitLength lw0)
  show ?case
  proof (cases j)
    case 0
    have a: "slice bits (L - c) L = w0"
      by (simp add: slice_def w0_def L_def)
    have b: "slice (fst r' @ W') (L - c) L = W'"
      by (simp add: slice_def lf lW')
    have m: "(snd r' @ [mask]) ! (length cs) = mask"
      by (simp add: nth_append ls)
    have e0: "length bits - sum_list (take 0 (c # cs)) = L" by (simp add: L_def)
    have c0: "(c # cs) ! 0 = c" by simp
    have idx: "length (c # cs) - 1 - 0 = length cs" by simp
    show ?thesis
      unfolding r 0 e0 c0 idx fst_conv snd_conv a b m
      by (simp add: W'_def mask_def cong: option.case_cong)
  next
    case (Suc j')
    with Cons.prems have j': "j' < length cs" by simp
    define e where "e = length bits' - sum_list (take j' cs)"
    define s where "s = e - cs ! j'"
    have e_le: "e \<le> L - c" by (simp add: e_def lb')
    have e_eq: "L - sum_list (take j (c # cs)) = e"
      by (simp add: Suc e_def lb' diff_diff_left)
    have cj: "(c # cs) ! j = cs ! j'" by (simp add: Suc)
    have sl1: "slice bits' s e = slice bits s e"
      unfolding bits'_def using e_le by (rule slice_take)
    have sl2: "slice (fst r' @ W') s e = slice (fst r') s e"
      using e_le by (simp add: slice_append_left lf)
    have m: "(snd r' @ [mask]) ! (length (c # cs) - 1 - j) = snd r' ! (length cs - 1 - j')"
    proof -
      have lt: "length cs - 1 - j' < length cs" using j' by simp
      have "length (c # cs) - 1 - j = length cs - 1 - j'" by (simp add: Suc)
      then show ?thesis using lt by (simp add: nth_append ls)
    qed
    have ij: "i + j = i + 1 + j'" by (simp add: Suc)
    note ih = Cons.IH[OF j', where i = "i + 1" and bits = bits', folded r'_def e_def,
        folded s_def, unfolded sl1]
    show ?thesis
      unfolding r L_def[symmetric] e_eq cj s_def[symmetric] fst_conv snd_conv sl2 m ij
      by (rule ih)
  qed
qed

section \<open>The sub-ranges of the masked rings\<close>

lemma sum_take_stepCapacities:
  "j \<le> maskCount \<Longrightarrow> maskCount \<le> length rings \<Longrightarrow>
   sum_list (take j (stepCapacities env rings 0 maskCount)) = capacity env (drop (length rings - j) rings)"
proof (induction j)
  case 0
  then show ?case by (simp add: capacity_def)
next
  case (Suc j)
  then have j: "j < maskCount" "j < length rings" by simp_all
  have len: "length (stepCapacities env rings 0 maskCount) = maskCount"
    by (simp add: stepCapacities_def)
  have nth: "stepCapacities env rings 0 maskCount ! j = bitCount env (rings ! (length rings - j - 1))"
    using j by (simp add: stepCapacities_def)
  have "take (Suc j) (stepCapacities env rings 0 maskCount)
          = take j (stepCapacities env rings 0 maskCount) @ [stepCapacities env rings 0 maskCount ! j]"
    using j len by (simp add: take_Suc_conv_app_nth)
  moreover have "drop (length rings - Suc j) rings
          = rings ! (length rings - Suc j) # drop (length rings - j) rings"
  proof -
    have "length rings - Suc j < length rings" using j by simp
    from Cons_nth_drop_Suc[OF this] have
      "rings ! (length rings - Suc j) # drop (Suc (length rings - Suc j)) rings
         = drop (length rings - Suc j) rings" .
    moreover have "Suc (length rings - Suc j) = length rings - j" using j by simp
    ultimately show ?thesis by simp
  qed
  ultimately show ?case
    using Suc.IH Suc.prems j by (simp add: nth capacity_def)
qed

lemma maskHexagonRings_maskedStore:
  assumes "valid_view h d" and "maskCount \<le> length rings"
    and "mcm = Inl maskCount \<and> gm = None \<or> (\<exists>ms. mcm = Inr ms \<and> gm = Some ms \<and> length ms = maskCount)"
  shows "maskHexagonRings env rings mcm d h
           = Inr (maskedStore env rings gm maskCount d h, snd (maskResult env rings gm maskCount d h))"
  unfolding maskedStore_def maskResult_def by (rule maskHexagonRings_char[OF assms])

lemma length_maskResult:
  "valid_view h d \<Longrightarrow> length (fst (maskResult env rings gm maskCount d h)) = BitArray_length d"
  "length (snd (maskResult env rings gm maskCount d h)) = maskCount"
  by (simp_all add: maskResult_def length_maskBits length_snd_maskBits length_toArray_valid
      stepCapacities_def)

lemma maskedStore_frame:
  assumes v: "valid_view h d"
  shows "length (maskedStore env rings gm maskCount d h) = length h"
    and "a \<noteq> buffer d \<Longrightarrow> maskedStore env rings gm maskCount d h ! a = h ! a"
    and "length (maskedStore env rings gm maskCount d h ! buffer d) = length (h ! buffer d)"
    and "take (startOffset d) (maskedStore env rings gm maskCount d h ! buffer d)
           = take (startOffset d) (h ! buffer d)"
    and "drop (endOffset d) (maskedStore env rings gm maskCount d h ! buffer d)
           = drop (endOffset d) (h ! buffer d)"
    and "valid_view (maskedStore env rings gm maskCount d h) d"
    and "BitArray_toArray (maskedStore env rings gm maskCount d h) d
           = fst (maskResult env rings gm maskCount d h)"
proof -
  let ?R = "fst (maskResult env rings gm maskCount d h)"
  let ?B = "h ! buffer d"
  have b: "buffer d < length h" "startOffset d \<le> endOffset d" "endOffset d \<le> length ?B"
    using v by (simp_all add: valid_view_def)
  have lR: "length ?R = endOffset d - startOffset d"
    using length_maskResult(1)[OF v] by (simp add: BitArray_length_def)
  have nb: "maskedStore env rings gm maskCount d h ! buffer d
              = take (startOffset d) ?B @ ?R @ drop (endOffset d) ?B"
    using b by (simp add: maskedStore_def)
  show "length (maskedStore env rings gm maskCount d h) = length h"
    by (simp add: maskedStore_def)
  show "a \<noteq> buffer d \<Longrightarrow> maskedStore env rings gm maskCount d h ! a = h ! a"
    by (simp add: maskedStore_def)
  show l: "length (maskedStore env rings gm maskCount d h ! buffer d) = length ?B"
    using b lR by (simp add: nb)
  show "take (startOffset d) (maskedStore env rings gm maskCount d h ! buffer d)
           = take (startOffset d) ?B"
    using b by (simp add: nb)
  show "drop (endOffset d) (maskedStore env rings gm maskCount d h ! buffer d)
           = drop (endOffset d) ?B"
    using b lR by (simp add: nb)
  show v': "valid_view (maskedStore env rings gm maskCount d h) d"
    using b l by (simp add: valid_view_def maskedStore_def)
  show "BitArray_toArray (maskedStore env rings gm maskCount d h) d = ?R"
    using b lR by (simp add: toArray_valid[OF v'] nb slice_def)
qed

lemma maskResult_ring:
  fixes env :: "'m env"
  assumes v: "valid_view h d" and mc: "maskCount \<le> length rings" and k: "k < maskCount"
  defines "r \<equiv> length rings - maskCount + k"
  defines "s \<equiv> hexRingStartOf env rings (BitArray_length d) r"
  defines "e \<equiv> hexRingEndOf env rings (BitArray_length d) r"
  shows "slice (fst (maskResult env rings gm maskCount d h)) s e
           = fitLength (slice (BitArray_toArray h d) s e)
               (applyMask env (snd (maskResult env rings gm maskCount d h) ! k)
                  (slice (BitArray_toArray h d) s e))"
    and "snd (maskResult env rings gm maskCount d h) ! k
           = (case gm of Some ms \<Rightarrow> ms ! (length ms - (maskCount - 1 - k) - 1)
              | None \<Rightarrow> findBestMask env (slice (BitArray_toArray h d) s e))"
proof -
  define j where "j = maskCount - 1 - k"
  define cs where "cs = stepCapacities env rings 0 maskCount"
  define D where "D = BitArray_toArray h d"
  have lcs: "length cs = maskCount" by (simp add: cs_def stepCapacities_def)
  have j: "j < length cs" using k by (simp add: j_def lcs)
  have jm: "j \<le> maskCount" "j < maskCount" using k by (simp_all add: j_def)
  have lD: "length D = BitArray_length d" by (simp add: D_def length_toArray_valid[OF v])
  have nj: "length rings - j = r + 1" using k mc by (simp add: j_def r_def)
  have sum: "sum_list (take j cs) = capacity env (drop (r + 1) rings)"
    unfolding cs_def sum_take_stepCapacities[OF jm(1) mc] nj ..
  have csj: "cs ! j = bitCount env (rings ! r)"
  proof -
    have "length rings - j - 1 = r" using nj by simp
    then show ?thesis using jm(2) by (simp add: cs_def stepCapacities_def)
  qed
  have e: "length D - sum_list (take j cs) = e"
    by (simp add: e_def hexRingEndOf_def sum lD)
  have s: "e - cs ! j = s"
    by (simp add: s_def hexRingStartOf_def e_def[symmetric] csj)
  have ix: "length cs - 1 - j = k" using k by (simp add: lcs j_def)
  have z: "0 + j = maskCount - 1 - k" by (simp add: j_def)
  note rd = maskBits_round[OF j, of env gm 0 D, unfolded e s ix z]
  show "slice (fst (maskResult env rings gm maskCount d h)) s e
           = fitLength (slice (BitArray_toArray h d) s e)
               (applyMask env (snd (maskResult env rings gm maskCount d h) ! k)
                  (slice (BitArray_toArray h d) s e))"
    unfolding maskResult_def cs_def[symmetric] D_def[symmetric] by (rule conjunct1[OF rd])
  show "snd (maskResult env rings gm maskCount d h) ! k
           = (case gm of Some ms \<Rightarrow> ms ! (length ms - (maskCount - 1 - k) - 1)
              | None \<Rightarrow> findBestMask env (slice (BitArray_toArray h d) s e))"
    unfolding maskResult_def cs_def[symmetric] D_def[symmetric] by (rule conjunct2[OF rd])
qed

lemma maskResult_untouched:
  assumes v: "valid_view h d" and mc: "maskCount \<le> length rings"
  shows "take (BitArray_length d - capacity env (drop (length rings - maskCount) rings))
           (fst (maskResult env rings gm maskCount d h))
         = take (BitArray_length d - capacity env (drop (length rings - maskCount) rings))
             (BitArray_toArray h d)"
proof -
  have "sum_list (stepCapacities env rings 0 maskCount)
          = capacity env (drop (length rings - maskCount) rings)"
    using sum_take_stepCapacities[OF order_refl mc, of env]
    by (simp add: stepCapacities_def)
  then show ?thesis
    using maskBits_untouched[of "BitArray_toArray h d" "stepCapacities env rings 0 maskCount" env gm 0]
    by (simp add: maskResult_def length_toArray_valid[OF v])
qed

lemma window_bounds:
  "hexRingStartOf env rings n r \<le> hexRingEndOf env rings n r"
  "hexRingEndOf env rings n r \<le> n"
  "hexRingEndOf env rings n r - hexRingStartOf env rings n r
     = min (bitCount env (rings ! r)) (hexRingEndOf env rings n r)"
  by (auto simp: hexRingStartOf_def hexRingEndOf_def)

lemma window_adjacent:
  "Suc r < length rings \<Longrightarrow> hexRingStartOf env rings n (Suc r) = hexRingEndOf env rings n r"
proof -
  assume a: "Suc r < length rings"
  from Cons_nth_drop_Suc[OF a] have "drop (Suc r) rings = rings ! Suc r # drop (Suc (Suc r)) rings"
    by simp
  then have "capacity env (drop (Suc r) rings)
               = bitCount env (rings ! Suc r) + capacity env (drop (Suc (Suc r)) rings)"
    by (simp add: capacity_def)
  then show ?thesis
    by (simp add: hexRingStartOf_def hexRingEndOf_def)
qed

lemma window_outermost:
  "hexRingEndOf env rings n (length rings - 1) = n"
  by (simp add: hexRingEndOf_def capacity_def)

lemma window_innermost:
  "r < length rings \<Longrightarrow> hexRingStartOf env rings n r = n - capacity env (drop r rings)"
proof -
  assume a: "r < length rings"
  from Cons_nth_drop_Suc[OF a] have "drop r rings = rings ! r # drop (Suc r) rings" by simp
  then have "capacity env (drop r rings) = bitCount env (rings ! r) + capacity env (drop (Suc r) rings)"
    by (simp add: capacity_def)
  then show ?thesis
    by (simp add: hexRingStartOf_def hexRingEndOf_def)
qed

section \<open>The checks at the entry of the encode constructor\<close>

lemma loop_error_is_TypeError:
  "maskHexagonRings_loop env rings gm maskCount d i h e acc = Inl (err, h') \<Longrightarrow> err = TypeError"
proof (induction env rings gm maskCount d i h e acc rule: maskHexagonRings_loop.induct)
  case (1 env rings gm maskCount d i h e acc)
  show ?case
  proof (cases "i < maskCount \<and> \<not> int (length rings) - int i - 1 < 0")
    case True
    then show ?thesis
      using "1.prems" "1.IH"
      by (subst (asm) maskHexagonRings_loop.simps) (simp add: Let_def del: maskHexagonRings_loop.simps)
  next
    case False
    then show ?thesis
      using "1.prems"
      by (subst (asm) maskHexagonRings_loop.simps) (auto simp del: maskHexagonRings_loop.simps split: if_splits)
  qed
qed

lemma maskHexagonRings_error_is_TypeError:
  "maskHexagonRings env rings mcm d h = Inl (err, h') \<Longrightarrow> err = TypeError"
  unfolding maskHexagonRings_def Let_def by (rule loop_error_is_TypeError)

lemma constructFromPayload_Invalid_argument:
  "version \<noteq> CURRENT_VERSION env \<or> payload = [] \<Longrightarrow>
   constructFromPayload env h payload f version = Some (Inl (Invalid_argument, unconstructed, h))"
  by (simp add: constructFromPayload_def unconstructed_def)

lemma constructFromPayload_Illegal_factor:
  "version = CURRENT_VERSION env \<Longrightarrow> payload \<noteq> [] \<Longrightarrow>
   js_less f (toNumber 0) \<or> js_less (MAX_FACTOR_ERROR_CORRECTION_DATA env) f \<Longrightarrow>
   constructFromPayload env h payload f version =
     Some (Inl (Illegal_error_correction_factor, unconstructed, h))"
  by (simp add: constructFromPayload_def unconstructed_def)

lemma constructFromPayload_Data_too_long:
  "version = CURRENT_VERSION env \<Longrightarrow> payload \<noteq> [] \<Longrightarrow>
   \<not> js_less f (toNumber 0) \<Longrightarrow> \<not> js_less (MAX_FACTOR_ERROR_CORRECTION_DATA env) f \<Longrightarrow>
   length payload * 8 > 2 ^ HEADER_LENGTH_PAYLOAD_LENGTH env * 8 \<Longrightarrow>
   constructFromPayload env h payload f version = Some (Inl (Data_too_long, unconstructed, h))"
  by (simp add: constructFromPayload_def unconstructed_def)

text \<open>What the checks at the entry catch: the empty payload, a wrong version, and a
  factor that compares below 0 or above \<open>MAX_FACTOR_ERROR_CORRECTION_DATA\<close>. The
  constructor then throws with no field assigned and the store of the call.\<close>

lemma invalid_arguments_caught:
  assumes "payload = [] \<or> version \<noteq> CURRENT_VERSION env
           \<or> js_less f (toNumber 0) \<or> js_less (MAX_FACTOR_ERROR_CORRECTION_DATA env) f"
  shows "\<exists>e. constructFromPayload env h payload f version = Some (Inl (e, unconstructed, h))
             \<and> invalidArgument e
             \<and> (payload = [] \<longrightarrow> e = Invalid_argument)"
proof (cases "version \<noteq> CURRENT_VERSION env \<or> payload = []")
  case True
  then show ?thesis
    by (simp add: constructFromPayload_Invalid_argument invalidArgument_def)
next
  case False
  with assms have "js_less f (toNumber 0) \<or> js_less (MAX_FACTOR_ERROR_CORRECTION_DATA env) f"
    by blast
  with False show ?thesis
    by (simp add: constructFromPayload_Illegal_factor invalidArgument_def)
qed

section \<open>The decode constructor after the header has been read\<close>

lemma constructFromScan_read:
  assumes "NimiqodeHeader_read env (BitArray_toArray h (BitArray_sub dat 0 (headerLengthOf env hexagonRings))) hexagonRings
             = Some (version, payloadLength, errorCorrectionLength, checksum, hexRingMasks)"
  shows "constructFromScan env h hexagonRings dat =
     (if version \<noteq> 0 then Inl (Unsupported_version, scanned hexagonRings dat, h)
      else if headerLengthOf env hexagonRings + payloadLength + errorCorrectionLength \<noteq> BitArray_length dat
      then Inl (Wrong_data_length, scanned hexagonRings dat, h)
      else
        case maskHexagonRings env hexagonRings (Inr hexRingMasks)
               (snd (BitArray_copy h dat (headerLengthOf env hexagonRings) (BitArray_length dat)))
               (fst (BitArray_copy h dat (headerLengthOf env hexagonRings) (BitArray_length dat))) of
          Inl (e, h2) \<Rightarrow> Inl (e, scanned hexagonRings dat, h2)
        | Inr (h2, unused) \<Rightarrow>
            (case LDPC_decode env
                    (BitArray_toArray h2
                       (snd (BitArray_copy h dat (headerLengthOf env hexagonRings) (BitArray_length dat))))
                    payloadLength errorCorrectionLength of
               None \<Rightarrow> Inl (Failed_to_decode_payload, scanned hexagonRings dat, h2)
             | Some payloadBits \<Rightarrow>
                 let payloadBitArray =
                       take (payloadLength div 8 * 8)
                         (map (\<lambda>i. if i < length payloadBits then payloadBits ! i else False)
                            [0..<payloadLength])
                 in if crc16 env (bits_Uint8Array payloadBitArray) \<noteq> checksum
                    then Inl (Checksum_mismatch,
                              (scanned hexagonRings dat)\<lparr>this_payload := Some (bits_Uint8Array payloadBitArray)\<rparr>, h2)
                    else Inr ((scanned hexagonRings dat)\<lparr>this_payload := Some (bits_Uint8Array payloadBitArray)\<rparr>, h2)))"
  using assms unfolding constructFromScan_def headerLengthOf_def scanned_def Let_def
  by (simp split: prod.splits sum.splits option.splits del: bits_Uint8Array.simps)

lemma constructFromScan_no_header:
  assumes "NimiqodeHeader_read env (BitArray_toArray h (BitArray_sub dat 0 (headerLengthOf env hexagonRings))) hexagonRings = None"
  shows "constructFromScan env h hexagonRings dat = Inl (Header_error, scanned hexagonRings dat, h)"
  using assms unfolding constructFromScan_def headerLengthOf_def scanned_def Let_def
  by simp

section \<open>What masking and decoding leave unchanged\<close>

lemma store_write_frame:
  "length (store_write h ba new) = length h \<and>
   (\<forall>a. a \<noteq> buffer ba \<longrightarrow> store_write h ba new ! a = h ! a)"
  by (simp add: store_write_def)

lemma update_frame:
  "length (BitArray_update h ba f) = length h \<and>
   (\<forall>a. a \<noteq> buffer ba \<longrightarrow> BitArray_update h ba f ! a = h ! a)"
  by (simp add: BitArray_update_def Let_def store_write_frame)

lemma loop_frame:
  "maskHexagonRings_loop env rings gm maskCount d i h e acc = Inr (h', masks) \<Longrightarrow>
   length h' = length h \<and> (\<forall>a. a \<noteq> buffer d \<longrightarrow> h' ! a = h ! a)"
proof (induction env rings gm maskCount d i h e acc rule: maskHexagonRings_loop.induct)
  case (1 env rings gm maskCount d i h e acc)
  show ?case
  proof (cases "i < maskCount")
    case False
    with "1.prems" show ?thesis
      by (subst (asm) maskHexagonRings_loop.simps) simp
  next
    case True
    show ?thesis
    proof (cases "int (length rings) - int i - 1 < 0")
      case True
      with \<open>i < maskCount\<close> "1.prems" show ?thesis
        by (subst (asm) maskHexagonRings_loop.simps) simp
    next
      case False
      define hexRing where "hexRing = rings ! (length rings - i - 1)"
      define v where "v = BitArray_sub d (nat (max 0 (int e - int (bitCount env hexRing)))) e"
      define mask where "mask = (case gm of Some gm \<Rightarrow> gm ! (length gm - i - 1)
                       | None \<Rightarrow> findBestMask env (BitArray_toArray h v))"
      define h1 where "h1 = BitArray_update h v (applyMask env mask)"
      have bv: "buffer v = buffer d" by (simp add: v_def BitArray_sub_def)
      have rec: "maskHexagonRings_loop env rings gm maskCount d (i + 1) h1
                   (e - BitArray_length v) (mask # acc) = Inr (h', masks)"
        using "1.prems" True False
        by (subst (asm) maskHexagonRings_loop.simps)
           (simp only: if_True if_False Let_def hexRing_def v_def mask_def h1_def)
      have "length h' = length h1 \<and> (\<forall>a. a \<noteq> buffer d \<longrightarrow> h' ! a = h1 ! a)"
        by (rule "1.IH"[OF True False hexRing_def v_def mask_def h1_def refl rec])
      moreover have "length h1 = length h \<and> (\<forall>a. a \<noteq> buffer d \<longrightarrow> h1 ! a = h ! a)"
        using update_frame[of h v "applyMask env mask"] by (simp add: h1_def bv)
      ultimately show ?thesis by simp
    qed
  qed
qed

lemma loop_frame_error:
  "maskHexagonRings_loop env rings gm maskCount d i h e acc = Inl (err, h') \<Longrightarrow>
   length h' = length h \<and> (\<forall>a. a \<noteq> buffer d \<longrightarrow> h' ! a = h ! a)"
proof (induction env rings gm maskCount d i h e acc rule: maskHexagonRings_loop.induct)
  case (1 env rings gm maskCount d i h e acc)
  show ?case
  proof (cases "i < maskCount")
    case False
    with "1.prems" show ?thesis
      by (subst (asm) maskHexagonRings_loop.simps) simp
  next
    case True
    show ?thesis
    proof (cases "int (length rings) - int i - 1 < 0")
      case True
      with \<open>i < maskCount\<close> "1.prems" show ?thesis
        by (subst (asm) maskHexagonRings_loop.simps) simp
    next
      case False
      define hexRing where "hexRing = rings ! (length rings - i - 1)"
      define v where "v = BitArray_sub d (nat (max 0 (int e - int (bitCount env hexRing)))) e"
      define mask where "mask = (case gm of Some gm \<Rightarrow> gm ! (length gm - i - 1)
                       | None \<Rightarrow> findBestMask env (BitArray_toArray h v))"
      define h1 where "h1 = BitArray_update h v (applyMask env mask)"
      have bv: "buffer v = buffer d" by (simp add: v_def BitArray_sub_def)
      have rec: "maskHexagonRings_loop env rings gm maskCount d (i + 1) h1
                   (e - BitArray_length v) (mask # acc) = Inl (err, h')"
        using "1.prems" True False
        by (subst (asm) maskHexagonRings_loop.simps)
           (simp only: if_True if_False Let_def hexRing_def v_def mask_def h1_def)
      have "length h' = length h1 \<and> (\<forall>a. a \<noteq> buffer d \<longrightarrow> h' ! a = h1 ! a)"
        by (rule "1.IH"[OF True False hexRing_def v_def mask_def h1_def refl rec])
      moreover have "length h1 = length h \<and> (\<forall>a. a \<noteq> buffer d \<longrightarrow> h1 ! a = h ! a)"
        using update_frame[of h v "applyMask env mask"] by (simp add: h1_def bv)
      ultimately show ?thesis by simp
    qed
  qed
qed

lemma maskHexagonRings_frame_error:
  "maskHexagonRings env rings mcm d h = Inl (err, h') \<Longrightarrow>
   length h' = length h \<and> (\<forall>a. a \<noteq> buffer d \<longrightarrow> h' ! a = h ! a)"
  unfolding maskHexagonRings_def Let_def by (rule loop_frame_error)

lemma maskHexagonRings_frame:
  "maskHexagonRings env rings mcm d h = Inr (h', masks) \<Longrightarrow>
   length h' = length h \<and> (\<forall>a. a \<noteq> buffer d \<longrightarrow> h' ! a = h ! a)"
  unfolding maskHexagonRings_def Let_def by (rule loop_frame)

lemma take_frame:
  "length h' = Suc (length h) \<Longrightarrow> (\<forall>a. a \<noteq> length h \<longrightarrow> h' ! a = (h @ [x]) ! a) \<Longrightarrow>
   take (length h) h' = h"
  by (rule nth_equalityI) (auto simp: nth_append)

lemma constructFromScan_store:
  "take (length h) (result_store (constructFromScan env h hexagonRings dat)) = h"
proof (cases "NimiqodeHeader_read env (BitArray_toArray h (BitArray_sub dat 0 (headerLengthOf env hexagonRings))) hexagonRings")
  case None
  then show ?thesis by (simp add: constructFromScan_no_header result_store_def)
next
  case (Some hdr)
  obtain version payloadLength errorCorrectionLength checksum hexRingMasks
    where hdr: "hdr = (version, payloadLength, errorCorrectionLength, checksum, hexRingMasks)"
    by (cases hdr) auto
  define cp where "cp = BitArray_copy h dat (headerLengthOf env hexagonRings) (BitArray_length dat)"
  have cp1: "fst cp = h @ [BitArray_toArray h (BitArray_sub dat (headerLengthOf env hexagonRings) (BitArray_length dat))]"
    and cp2: "buffer (snd cp) = length h"
    by (simp_all add: cp_def BitArray_copy_def Let_def)
  have pre: "take (length h) (fst cp) = h" by (simp add: cp1)
  show ?thesis
  proof (cases "maskHexagonRings env hexagonRings (Inr hexRingMasks) (snd cp) (fst cp)")
    case (Inl r)
    obtain e h2 where r: "r = (e, h2)" by (cases r) auto
    from maskHexagonRings_frame_error[OF Inl[unfolded r]]
    have "length h2 = Suc (length h)" "\<forall>a. a \<noteq> length h \<longrightarrow> h2 ! a = fst cp ! a"
      by (simp_all add: cp1 cp2)
    then have "take (length h) h2 = h"
      unfolding cp1 by (rule take_frame)
    with Some hdr pre Inl r show ?thesis
      by (simp add: constructFromScan_read result_store_def cp_def[symmetric])
  next
    case (Inr r)
    obtain h2 unused where r: "r = (h2, unused)" by (cases r) auto
    from maskHexagonRings_frame[OF Inr[unfolded r]]
    have "length h2 = Suc (length h)" "\<forall>a. a \<noteq> length h \<longrightarrow> h2 ! a = fst cp ! a"
      by (simp_all add: cp1 cp2)
    then have "take (length h) h2 = h"
      unfolding cp1 by (rule take_frame)
    with Some hdr pre Inr r show ?thesis
      by (simp add: constructFromScan_read result_store_def cp_def[symmetric] Let_def
               split: option.splits del: bits_Uint8Array.simps)
  qed
qed

section \<open>The encode constructor after its checks\<close>

lemma constructFromPayload_body:
  assumes "version = CURRENT_VERSION env" and "payload \<noteq> []"
    and "\<not> js_less f (toNumber 0)"
    and "\<not> js_less (MAX_FACTOR_ERROR_CORRECTION_DATA env) f"
    and "length payload * 8 \<le> 2 ^ HEADER_LENGTH_PAYLOAD_LENGTH env * 8"
    and "createHexagonRings env [] (payloadBitLength payload) (preliminaryLength payload f)
           = Some (rings, dataLength)"
  shows "constructFromPayload env h payload f version =
     (case maskHexagonRings env rings (Inl (calculateMaskCount env rings))
             (BitArray_sub (wholeData h dataLength) (headerLengthOf env rings) dataLength)
             (BitArray_setValues (h @ [replicate dataLength False])
                (BitArray_sub (wholeData h dataLength) (headerLengthOf env rings) dataLength)
                (LDPC_encode env (Uint8Array_bits payload) (finalLength env rings dataLength payload))) of
        Inl (e, h3) \<Rightarrow>
          Some (Inl (e, \<lparr>this_payload = Some payload, this_hexagonRings = Some rings,
                          this_data = Some (wholeData h dataLength)\<rparr>, h3))
      | Inr (h3, masks) \<Rightarrow>
          Some (Inr (\<lparr>this_payload = Some payload,
                      this_hexagonRings = Some (assignHexagonRingData env rings (wholeData h dataLength)),
                      this_data = Some (wholeData h dataLength)\<rparr>,
                     BitArray_update h3 (BitArray_sub (wholeData h dataLength) 0 (headerLengthOf env rings))
                       (NimiqodeHeader_write env version (payloadBitLength payload)
                          (finalLength env rings dataLength payload) (crc16 env payload) masks))))"
  using assms
  unfolding constructFromPayload_def headerLengthOf_def payloadBitLength_def preliminaryLength_def
    finalLength_def wholeData_def BitArray_new_def Let_def
  by (simp split: prod.splits sum.splits)


lemma length_codeword:
  "length (codeword env rings dataLength payload) = dataLength - headerLengthOf env rings"
  by (simp add: codeword_def Let_def)


lemma list_update_append_last: "(h @ [x])[length h := y] = h @ [y]"
  by simp

lemma encode_char:
  assumes checks: "version = CURRENT_VERSION env" "payload \<noteq> []"
      "\<not> js_less f (toNumber 0)" "\<not> js_less (MAX_FACTOR_ERROR_CORRECTION_DATA env) f"
      "length payload * 8 \<le> 2 ^ HEADER_LENGTH_PAYLOAD_LENGTH env * 8"
    and sizing: "createHexagonRings env [] (payloadBitLength payload) (preliminaryLength payload f)
           = Some (rings, dataLength)"
    and mc: "calculateMaskCount env rings \<le> length rings"
    and room: "headerLengthOf env rings \<le> dataLength"
  shows "constructFromPayload env h payload f version =
     Some (Inr (\<lparr>this_payload = Some payload,
                 this_hexagonRings = Some (assignHexagonRingData env rings (wholeData h dataLength)),
                 this_data = Some (wholeData h dataLength)\<rparr>,
                h @ [encodedStream env rings dataLength payload version]))"
proof -
  define hl where "hl = headerLengthOf env rings"
  define pl where "pl = payloadBitLength payload"
  define ecl where "ecl = finalLength env rings dataLength payload"
  define dat where "dat = wholeData h dataLength"
  define ep where "ep = BitArray_sub dat hl dataLength"
  define cw where "cw = codeword env rings dataLength payload"
  define r where "r = maskedCodeword env rings dataLength payload"
  define h2 where "h2 = BitArray_setValues (h @ [replicate dataLength False]) ep
                          (LDPC_encode env (Uint8Array_bits payload) ecl)"
  have ep: "ep = \<lparr>buffer = length h, startOffset = hl, endOffset = dataLength\<rparr>"
    by (simp add: ep_def dat_def wholeData_def BitArray_sub_def)
  have hl_le: "hl \<le> dataLength" using room by (simp add: hl_def)
  have ep_len: "BitArray_length ep = dataLength - hl"
    by (simp add: ep BitArray_length_def)
  have v1: "valid_view (h @ [replicate dataLength False]) ep"
    using hl_le by (simp add: valid_view_def ep)
  have lcw: "length cw = dataLength - hl"
    by (simp add: cw_def length_codeword hl_def)
  have h2: "h2 = h @ [replicate hl False @ cw]"
  proof -
    have "h2 = store_write (h @ [replicate dataLength False]) ep cw"
      by (simp add: h2_def BitArray_setValues_def ep_len cw_def codeword_def Let_def ecl_def hl_def)
    also have "\<dots> = (h @ [replicate dataLength False])[buffer ep :=
                 take (startOffset ep) ((h @ [replicate dataLength False]) ! buffer ep) @ cw
                   @ drop (endOffset ep) ((h @ [replicate dataLength False]) ! buffer ep)]"
      by (rule store_write_valid[OF v1]) (simp add: lcw ep_len)
    also have "\<dots> = h @ [replicate hl False @ cw]"
      using hl_le by (simp add: ep min_def)
    finally show ?thesis .
  qed
  have v2: "valid_view h2 ep"
    using hl_le lcw by (simp add: valid_view_def ep h2)
  have toA: "BitArray_toArray h2 ep = cw"
    using toArray_valid[OF v2] lcw by (simp add: ep h2 slice_def)
  have masked: "maskHexagonRings env rings (Inl (calculateMaskCount env rings)) ep h2
                  = Inr (h @ [replicate hl False @ fst r], snd r)"
  proof -
    have "maskHexagonRings env rings (Inl (calculateMaskCount env rings)) ep h2 =
       Inr (h2[buffer ep := take (startOffset ep) (h2 ! buffer ep)
                @ fst (maskBits env None 0 (stepCapacities env rings 0 (calculateMaskCount env rings))
                         (BitArray_toArray h2 ep))
                @ drop (endOffset ep) (h2 ! buffer ep)],
            snd (maskBits env None 0 (stepCapacities env rings 0 (calculateMaskCount env rings))
                         (BitArray_toArray h2 ep)))"
      by (rule maskHexagonRings_char[OF v2 mc]) simp
    also have "\<dots> = Inr (h @ [replicate hl False @ fst r], snd r)"
      unfolding toA using lcw hl_le by (simp add: ep h2 r_def maskedCodeword_def cw_def)
    finally show ?thesis .
  qed
  define hv where "hv = BitArray_sub dat 0 hl"
  have hv: "hv = \<lparr>buffer = length h, startOffset = 0, endOffset = hl\<rparr>"
    by (simp add: hv_def dat_def wholeData_def BitArray_sub_def)
  have v3: "valid_view (h @ [replicate hl False @ fst r]) hv"
    by (simp add: valid_view_def hv)
  have written: "BitArray_update (h @ [replicate hl False @ fst r]) hv
           (NimiqodeHeader_write env version pl ecl (crc16 env payload) (snd r))
         = h @ [encodedStream env rings dataLength payload version]"
    using update_valid[OF v3, of "NimiqodeHeader_write env version pl ecl (crc16 env payload) (snd r)"]
    by (simp add: hv slice_def encodedStream_def writtenHeader_def r_def hl_def pl_def ecl_def)
  show ?thesis
    unfolding constructFromPayload_body[OF checks sizing]
    unfolding hl_def[symmetric] pl_def[symmetric] ecl_def[symmetric] dat_def[symmetric]
      ep_def[symmetric] h2_def[symmetric]
    by (simp add: masked hv_def[symmetric] written)
qed

section \<open>What a returning constructor has done\<close>

lemma constructFromPayload_diverges:
  assumes "version = CURRENT_VERSION env" and "payload \<noteq> []"
    and "\<not> js_less f (toNumber 0)"
    and "\<not> js_less (MAX_FACTOR_ERROR_CORRECTION_DATA env) f"
    and "length payload * 8 \<le> 2 ^ HEADER_LENGTH_PAYLOAD_LENGTH env * 8"
    and "createHexagonRings env [] (payloadBitLength payload) (preliminaryLength payload f) = None"
  shows "constructFromPayload env h payload f version = None"
  using assms
  unfolding constructFromPayload_def payloadBitLength_def preliminaryLength_def Let_def
  by simp

lemma encode_success_inv:
  assumes ok: "constructFromPayload env h payload f version = Some (Inr (this, h'))"
  shows "version = CURRENT_VERSION env \<and> payload \<noteq> []
       \<and> \<not> js_less f (toNumber 0) \<and> \<not> js_less (MAX_FACTOR_ERROR_CORRECTION_DATA env) f
       \<and> length payload * 8 \<le> 2 ^ HEADER_LENGTH_PAYLOAD_LENGTH env * 8
       \<and> (\<exists>rings dataLength.
             createHexagonRings env [] (payloadBitLength payload) (preliminaryLength payload f)
               = Some (rings, dataLength)
             \<and> calculateMaskCount env rings \<le> length rings)"
proof -
  have c1: "version = CURRENT_VERSION env \<and> payload \<noteq> []"
    using ok constructFromPayload_Invalid_argument[of version env payload h f] by auto
  have c2: "\<not> js_less f (toNumber 0) \<and> \<not> js_less (MAX_FACTOR_ERROR_CORRECTION_DATA env) f"
  proof (rule ccontr)
    assume "\<not> (\<not> js_less f (toNumber 0) \<and> \<not> js_less (MAX_FACTOR_ERROR_CORRECTION_DATA env) f)"
    then have "js_less f (toNumber 0) \<or> js_less (MAX_FACTOR_ERROR_CORRECTION_DATA env) f"
      by auto
    from constructFromPayload_Illegal_factor[OF conjunct1[OF c1] conjunct2[OF c1] this, of h] ok
    show False by simp
  qed
  have c3: "length payload * 8 \<le> 2 ^ HEADER_LENGTH_PAYLOAD_LENGTH env * 8"
  proof (rule ccontr)
    assume "\<not> length payload * 8 \<le> 2 ^ HEADER_LENGTH_PAYLOAD_LENGTH env * 8"
    then have "length payload * 8 > 2 ^ HEADER_LENGTH_PAYLOAD_LENGTH env * 8" by simp
    from constructFromPayload_Data_too_long[OF conjunct1[OF c1] conjunct2[OF c1]
           conjunct1[OF c2] conjunct2[OF c2] this, of h] ok
    show False by simp
  qed
  have "createHexagonRings env [] (payloadBitLength payload) (preliminaryLength payload f) \<noteq> None"
  proof
    assume n: "createHexagonRings env [] (payloadBitLength payload) (preliminaryLength payload f) = None"
    from constructFromPayload_diverges[OF conjunct1[OF c1] conjunct2[OF c1]
           conjunct1[OF c2] conjunct2[OF c2] c3 n, of h] ok
    show False by simp
  qed
  then obtain y where
    "createHexagonRings env [] (payloadBitLength payload) (preliminaryLength payload f) = Some y"
    by blast
  then obtain rings dataLength where
    s: "createHexagonRings env [] (payloadBitLength payload) (preliminaryLength payload f)
          = Some (rings, dataLength)"
    by (cases y) simp
  have "calculateMaskCount env rings \<le> length rings"
  proof (rule ccontr)
    assume "\<not> calculateMaskCount env rings \<le> length rings"
    then have lt: "length rings < calculateMaskCount env rings" by simp
    from maskHexagonRings_too_many_masks[OF lt] obtain h3 where
      "maskHexagonRings env rings (Inl (calculateMaskCount env rings))
             (BitArray_sub (wholeData h dataLength) (headerLengthOf env rings) dataLength)
             (BitArray_setValues (h @ [replicate dataLength False])
                (BitArray_sub (wholeData h dataLength) (headerLengthOf env rings) dataLength)
                (LDPC_encode env (Uint8Array_bits payload) (finalLength env rings dataLength payload)))
         = Inl (TypeError, h3)"
      by blast
    with ok show False
      unfolding constructFromPayload_body[OF conjunct1[OF c1] conjunct2[OF c1]
          conjunct1[OF c2] conjunct2[OF c2] c3 s]
      by simp
  qed
  with c1 c2 c3 s show ?thesis by blast
qed

lemma length_assign_loop: "length (assignHexagonRingData_loop env rings dat k) = length rings"
  by (induction rings arbitrary: k) simp_all

lemma length_assignHexagonRingData: "length (assignHexagonRingData env rings dat) = length rings"
  by (simp add: assignHexagonRingData_def length_assign_loop)

lemma decode_rings:
  assumes "constructFromScan env h hexagonRings dat = Inr (this, h')"
  shows "this_hexagonRings this = Some hexagonRings \<and> this_data this = Some dat"
proof (cases "NimiqodeHeader_read env (BitArray_toArray h (BitArray_sub dat 0 (headerLengthOf env hexagonRings))) hexagonRings")
  case None
  with assms show ?thesis by (simp add: constructFromScan_no_header)
next
  case (Some hdr)
  obtain version payloadLength errorCorrectionLength checksum hexRingMasks
    where hdr: "hdr = (version, payloadLength, errorCorrectionLength, checksum, hexRingMasks)"
    by (cases hdr) auto
  from assms show ?thesis
    unfolding constructFromScan_read[OF Some[unfolded hdr]]
    by (auto simp: scanned_def Let_def split: if_splits sum.splits option.splits prod.splits
             simp del: bits_Uint8Array.simps)
qed



lemma geometry_assign_loop:
  "map geometry (assignHexagonRingData_loop env rings dat k) = map geometry rings"
  by (induction rings arbitrary: k) simp_all

lemma geometry_assignHexagonRingData:
  "map geometry (assignHexagonRingData env rings dat) = map geometry rings"
  by (simp add: assignHexagonRingData_def geometry_assign_loop)


lemma sizing_shape:
  assumes "createHexagonRings env [] pl ec = Some (rings, dataLength)"
  shows "dataLength = capacity env rings" and "2 \<le> length rings"
    and "\<not> js_less (toNumber dataLength) (calculateLength env rings pl ec)"
proof -
  from createHexagonRings_result[OF assms] obtain n where
    n: "2 \<le> n" "rings = ringsFrom env 0 n" "dataLength = capacity env rings"
       "\<not> js_less (toNumber dataLength) (calculateLength env rings pl ec)"
    by blast
  show "dataLength = capacity env rings" by (rule n(3))
  show "2 \<le> length rings" using n(1,2) by (simp add: ringsFrom_def)
  show "\<not> js_less (toNumber dataLength) (calculateLength env rings pl ec)" by (rule n(4))
qed


lemma encode_lengths:
  assumes "createHexagonRings env [] (payloadBitLength payload) (preliminaryLength payload f)
             = Some (rings, dataLength)"
    and "preliminaryLength payload f = Double c 0" and "0 \<le> c"
  shows "dataLength = capacity env rings"
    and "int (headerLengthOf env rings) + int (payloadBitLength payload) + c \<le> int dataLength"
    and "headerLengthOf env rings + payloadBitLength payload
           + nat (finalLength env rings dataLength payload) = dataLength"
    and "c \<le> finalLength env rings dataLength payload"
    and "2 \<le> length rings"
    and "0 \<le> finalLength env rings dataLength payload"
    and "headerLengthOf env rings \<le> dataLength"
proof -
  note s = sizing_shape[OF assms(1)]
  show "dataLength = capacity env rings" by (rule s(1))
  show le: "int (headerLengthOf env rings) + int (payloadBitLength payload) + c \<le> int dataLength"
    using s(3) by (simp add: assms(2) fits_Double)
  show "headerLengthOf env rings + payloadBitLength payload
           + nat (finalLength env rings dataLength payload) = dataLength"
    using le assms(3) by (simp add: finalLength_def)
  show "c \<le> finalLength env rings dataLength payload"
    using le by (simp add: finalLength_def)
  show "2 \<le> length rings" by (rule s(2))
  show "0 \<le> finalLength env rings dataLength payload"
    using le assms(3) by (simp add: finalLength_def)
  show "headerLengthOf env rings \<le> dataLength"
    using le assms(3) by simp
qed


text \<open>The instance of a returning encode constructor.\<close>

lemma encode_return:
  assumes ok: "constructFromPayload env h payload f version = Some (Inr (this, h'))"
  shows "\<exists>rings dataLength.
      createHexagonRings env [] (payloadBitLength payload) (preliminaryLength payload f)
        = Some (rings, dataLength)
    \<and> this = \<lparr>this_payload = Some payload,
               this_hexagonRings = Some (assignHexagonRingData env rings (wholeData h dataLength)),
               this_data = Some (wholeData h dataLength)\<rparr>"
proof -
  from encode_success_inv[OF ok] obtain rings dataLength where
    c: "version = CURRENT_VERSION env" "payload \<noteq> []" "\<not> js_less f (toNumber 0)"
       "\<not> js_less (MAX_FACTOR_ERROR_CORRECTION_DATA env) f"
       "length payload * 8 \<le> 2 ^ HEADER_LENGTH_PAYLOAD_LENGTH env * 8"
    and s: "createHexagonRings env [] (payloadBitLength payload) (preliminaryLength payload f)
              = Some (rings, dataLength)"
    by blast
  from ok have "this = \<lparr>this_payload = Some payload,
               this_hexagonRings = Some (assignHexagonRingData env rings (wholeData h dataLength)),
               this_data = Some (wholeData h dataLength)\<rparr>"
    unfolding constructFromPayload_body[OF c s]
    by (auto split: sum.splits prod.splits)
  with s show ?thesis by blast
qed
section \<open>Decoding what the encode constructor wrote\<close>

text \<open>Under the contract of the masks, running the masking loop with the masks that a
  first run selected restores the bits; the capacities of the masked rings depend on the
  geometry of the rings alone.\<close>

lemma maskBits_undo:
  assumes c: "Masking_contract env"
  shows "(\<forall>j<length cs. ms ! (length ms - (i + j) - 1)
              = snd (maskBits env None i cs bits) ! (length cs - 1 - j)) \<Longrightarrow>
         fst (maskBits env (Some ms) i cs (fst (maskBits env None i cs bits))) = bits"
proof (induction cs arbitrary: i bits)
  case Nil
  show ?case by simp
next
  case (Cons c cs)
  define L where "L = length bits"
  define w0 where "w0 = drop (L - c) bits"
  define m where "m = findBestMask env w0"
  define W' where "W' = fitLength w0 (applyMask env m w0)"
  define r' where "r' = maskBits env None (i + 1) cs (take (L - c) bits)"
  have r: "maskBits env None i (c # cs) bits = (fst r' @ W', snd r' @ [m])"
    by (simp add: Let_def r'_def W'_def m_def w0_def L_def)
  have lf: "length (fst r') = L - c" by (simp add: r'_def length_maskBits L_def)
  have ls: "length (snd r') = length cs" by (simp add: r'_def length_snd_maskBits)
  have lw0: "length w0 = L - (L - c)" by (simp add: w0_def L_def)
  have W': "W' = applyMask env m w0"
    using c by (simp add: W'_def fitLength_same Masking_contract_def)
  have undone: "fitLength W' (applyMask env m W') = w0"
    using c by (simp add: W' fitLength_same Masking_contract_def)
  have lW': "length W' = L - (L - c)"
    by (simp add: W'_def length_fitLength lw0)
  have len: "length (fst r' @ W') = L"
    by (simp add: lf lW')
  have m0: "ms ! (length ms - i - 1) = m"
    using Cons.prems[unfolded r, rule_format, of 0] by (simp add: nth_append ls)
  have hyp: "\<forall>j<length cs. ms ! (length ms - (i + 1 + j) - 1) = snd r' ! (length cs - 1 - j)"
  proof (intro allI impI)
    fix j assume j: "j < length cs"
    then have "Suc j < length (c # cs)" by simp
    from Cons.prems[unfolded r, rule_format, OF this]
    have "ms ! (length ms - (i + Suc j) - 1) = (snd r' @ [m]) ! (length cs - 1 - j)"
      by simp
    moreover have "length cs - 1 - j < length cs" using j by simp
    ultimately show "ms ! (length ms - (i + 1 + j) - 1) = snd r' ! (length cs - 1 - j)"
      by (simp add: nth_append ls)
  qed
  from Cons.IH[OF hyp[unfolded r'_def]]
  have IH: "fst (maskBits env (Some ms) (i + 1) cs (fst r')) = take (L - c) bits"
    by (simp add: r'_def)
  have d: "drop (L - c) (fst r' @ W') = W'" by (simp add: lf)
  have t: "take (L - c) (fst r' @ W') = fst r'" by (simp add: lf)
  have "fst (maskBits env (Some ms) i (c # cs) (fst r' @ W'))
          = fst (maskBits env (Some ms) (i + 1) cs (fst r')) @ fitLength W' (applyMask env m W')"
    by (simp only: maskBits.simps Let_def option.case len d t m0 fst_conv)
  also have "\<dots> = take (L - c) bits @ w0"
    by (simp only: IH undone)
  also have "\<dots> = bits" by (simp add: w0_def)
  finally show ?case unfolding r fst_conv .
qed

lemma maskResult_undo:
  assumes c: "Masking_contract env"
  shows "fst (maskBits env (Some (snd (maskBits env None 0 cs bits))) 0 cs
                (fst (maskBits env None 0 cs bits))) = bits"
proof (rule maskBits_undo[OF c])
  show "\<forall>j<length cs. snd (maskBits env None 0 cs bits)
            ! (length (snd (maskBits env None 0 cs bits)) - (0 + j) - 1)
          = snd (maskBits env None 0 cs bits) ! (length cs - 1 - j)"
    by (simp add: length_snd_maskBits)
qed

lemma stepCapacities_shape:
  assumes "map geometry rs' = map geometry rs" and "maskCount \<le> length rs"
  shows "stepCapacities env rs' 0 maskCount = stepCapacities env rs 0 maskCount"
proof -
  have l: "length rs' = length rs" using assms(1) by (metis length_map)
  have "\<And>j. j < maskCount \<Longrightarrow>
          bitCount env (rs' ! (length rs' - j - 1)) = bitCount env (rs ! (length rs - j - 1))"
  proof -
    fix j assume "j < maskCount"
    with assms(2) have i: "length rs - j - 1 < length rs" by simp
    have "geometry (rs' ! (length rs - j - 1)) = map geometry rs' ! (length rs - j - 1)"
      using i l by simp
    also have "\<dots> = geometry (rs ! (length rs - j - 1))"
      using i by (simp add: assms(1))
    finally show "bitCount env (rs' ! (length rs' - j - 1)) = bitCount env (rs ! (length rs - j - 1))"
      by (simp add: bitCount_def l)
  qed
  then show ?thesis by (simp add: stepCapacities_def)
qed

lemma map_nth_default: "map (\<lambda>i. if i < length xs then xs ! i else False) [0..<length xs] = xs"
  by (rule nth_equalityI) simp_all

lemma decode_of_encode:
  fixes env :: "'m env"
  assumes mask: "Masking_contract env" and ldpc: "LDPC_contract env"
    and count: "MaskCount_contract env"
    and room: "headerLengthOf env rings + payloadBitLength payload \<le> dataLength"
    and header: "Header_contract env rings (payloadBitLength payload)
                   (nat (finalLength env rings dataLength payload))"
  shows "\<exists>h2. constructFromScan env (h @ [encodedStream env rings dataLength payload 0])
               (assignHexagonRingData env rings (wholeData h dataLength)) (wholeData h dataLength)
           = Inr ((scanned (assignHexagonRingData env rings (wholeData h dataLength))
                     (wholeData h dataLength))\<lparr>this_payload := Some payload\<rparr>, h2)"
proof -
  define dat where "dat = wholeData h dataLength"
  define rings' where "rings' = assignHexagonRingData env rings dat"
  define hl where "hl = headerLengthOf env rings"
  define pl where "pl = payloadBitLength payload"
  define ecl where "ecl = nat (finalLength env rings dataLength payload)"
  define mc where "mc = calculateMaskCount env rings"
  define cs where "cs = stepCapacities env rings 0 mc"
  define cw where "cw = codeword env rings dataLength payload"
  define E' where "E' = fst (maskBits env None 0 cs cw)"
  define masks where "masks = snd (maskBits env None 0 cs cw)"
  define Hdr where "Hdr = writtenHeader env rings dataLength payload 0"
  define h1 where "h1 = h @ [Hdr @ E']"
  have fin: "finalLength env rings dataLength payload = int ecl"
    using room by (simp add: ecl_def finalLength_def)
  have l3: "hl + pl + ecl = dataLength"
    using room by (simp add: ecl_def finalLength_def hl_def pl_def)
  have geo: "map geometry rings' = map geometry rings"
    by (simp add: rings'_def geometry_assignHexagonRingData)
  have mc': "calculateMaskCount env rings' = mc"
    using count geo unfolding MaskCount_contract_def mc_def by blast
  have mc_le: "mc \<le> length rings"
    using count unfolding MaskCount_contract_def mc_def by blast
  have lr': "length rings' = length rings"
    by (simp add: rings'_def length_assignHexagonRingData)
  have hl': "headerLengthOf env rings' = hl"
    by (simp add: headerLengthOf_def mc' hl_def mc_def)
  have lmasks: "length masks = mc"
    by (simp add: masks_def length_snd_maskBits cs_def stepCapacities_def)
  have lcw: "length cw = dataLength - hl"
    by (simp add: cw_def length_codeword hl_def)
  have lE': "length E' = dataLength - hl"
    by (simp add: E'_def length_maskBits lcw)
  have hl_le: "hl \<le> dataLength" using l3 by simp
  have stream: "encodedStream env rings dataLength payload 0 = Hdr @ E'"
    by (simp add: encodedStream_def Hdr_def E'_def maskedCodeword_def cs_def mc_def cw_def)
  have hc: "length (NimiqodeHeader_write env 0 pl (int ecl) (crc16 env payload) masks
                      (replicate hl False))
              = hl"
    "\<And>rs'. map geometry rs' = map geometry rings \<Longrightarrow>
       NimiqodeHeader_read env
         (NimiqodeHeader_write env 0 pl (int ecl) (crc16 env payload) masks (replicate hl False)) rs'
       = Some (0, pl, ecl, crc16 env payload, masks)"
    using header lmasks
    by (simp_all add: Header_contract_def pl_def ecl_def hl_def mc_def)
  have Hdr: "Hdr = NimiqodeHeader_write env 0 pl (int ecl) (crc16 env payload) masks
                      (replicate hl False)"
    using hc(1)
    by (simp add: Hdr_def writtenHeader_def fitLength_same maskedCodeword_def masks_def cs_def
        mc_def cw_def hl_def pl_def fin)
  have lHdr: "length Hdr = hl" by (simp add: Hdr hc(1))
  have hv: "BitArray_toArray h1 (BitArray_sub dat 0 (headerLengthOf env rings')) = Hdr"
    by (simp add: hl' h1_def dat_def wholeData_def BitArray_sub_def BitArray_toArray_def
        BitArray_length_def store_get_def lHdr)
  have rd: "NimiqodeHeader_read env
              (BitArray_toArray h1 (BitArray_sub dat 0 (headerLengthOf env rings'))) rings'
            = Some (0, pl, ecl, crc16 env payload, masks)"
    unfolding hv Hdr by (rule hc(2)[OF geo])
  have ldat: "BitArray_length dat = dataLength"
    by (simp add: dat_def wholeData_def BitArray_length_def)
  define cp where "cp = BitArray_copy h1 dat hl dataLength"
  have region: "BitArray_toArray h1 (BitArray_sub dat hl dataLength) = E'"
    using hl_le
    by (simp add: h1_def dat_def wholeData_def BitArray_sub_def BitArray_toArray_def
        BitArray_length_def store_get_def lHdr lE')
  have cp1: "fst cp = h1 @ [E']"
    and cp2: "snd cp = \<lparr>buffer = length h1, startOffset = 0, endOffset = dataLength - hl\<rparr>"
    by (simp_all add: cp_def BitArray_copy_def Let_def region lE')
  have vcp: "valid_view (fst cp) (snd cp)"
    by (simp add: cp1 cp2 valid_view_def lE')
  have tcp: "BitArray_toArray (fst cp) (snd cp) = E'"
    using toArray_valid[OF vcp] by (simp add: cp1 cp2 slice_def lE')
  have mode: "(Inr masks :: nat + 'm list) = Inl mc \<and> Some masks = None
        \<or> (\<exists>ms. (Inr masks :: nat + 'm list) = Inr ms \<and> Some masks = Some ms \<and> length ms = mc)"
    by (simp add: lmasks)
  have mc_le': "mc \<le> length rings'" using mc_le lr' by simp
  have run: "maskHexagonRings env rings' (Inr masks) (snd cp) (fst cp)
          = Inr (maskedStore env rings' (Some masks) mc (snd cp) (fst cp),
                 snd (maskResult env rings' (Some masks) mc (snd cp) (fst cp)))"
    by (rule maskHexagonRings_maskedStore[OF vcp mc_le' mode])
  have unmasked: "BitArray_toArray (maskedStore env rings' (Some masks) mc (snd cp) (fst cp)) (snd cp)
          = cw"
  proof -
    have "BitArray_toArray (maskedStore env rings' (Some masks) mc (snd cp) (fst cp)) (snd cp)
            = fst (maskBits env (Some masks) 0 (stepCapacities env rings' 0 mc) E')"
      by (simp add: maskedStore_frame(7)[OF vcp] maskResult_def tcp)
    also have "\<dots> = fst (maskBits env (Some masks) 0 cs E')"
      by (simp add: stepCapacities_shape[OF geo mc_le] cs_def)
    also have "\<dots> = cw"
      unfolding masks_def E'_def by (rule maskResult_undo[OF mask])
    finally show ?thesis .
  qed
  have bits: "length (Uint8Array_bits payload) = pl"
    by (simp add: pl_def payloadBitLength_def)
  have enc: "length (LDPC_encode env (Uint8Array_bits payload) (int ecl)) = pl + ecl"
    "LDPC_decode env (LDPC_encode env (Uint8Array_bits payload) (int ecl)) pl ecl
       = Some (Uint8Array_bits payload)"
    using ldpc bits by (auto simp: LDPC_contract_def)
  have cw_enc: "cw = LDPC_encode env (Uint8Array_bits payload) (int ecl)"
  proof -
    have "dataLength - hl = length (LDPC_encode env (Uint8Array_bits payload) (int ecl))"
      using l3 enc(1) by simp
    then show ?thesis
      by (simp add: cw_def codeword_def Let_def fin hl_def[symmetric] map_nth_default)
  qed
  have dec: "LDPC_decode env cw pl ecl = Some (Uint8Array_bits payload)"
    by (simp add: cw_enc enc(2))
  have pl8: "pl div 8 * 8 = pl"
    by (simp add: pl_def payloadBitLength_def length_Uint8Array_bits)
  have back_bits: "take (pl div 8 * 8)
          (map (\<lambda>i. if i < length (Uint8Array_bits payload) then Uint8Array_bits payload ! i else False)
             [0..<pl]) = Uint8Array_bits payload"
    using map_nth_default[of "Uint8Array_bits payload"] by (simp add: pl8 bits)
  have "constructFromScan env h1 rings' dat
          = Inr ((scanned rings' dat)\<lparr>this_payload := Some payload\<rparr>,
                 maskedStore env rings' (Some masks) mc (snd cp) (fst cp))"
    unfolding constructFromScan_read[OF rd]
    by (simp add: l3 hl' ldat cp_def[symmetric] run unmasked dec back_bits Let_def
        Uint8Array_roundtrip del: bits_Uint8Array.simps)
  then show ?thesis
    unfolding stream h1_def[symmetric] rings'_def[symmetric] dat_def[symmetric] by blast
qed


section \<open>The sample, evaluated\<close>

lemma sample_payloadBitLength: "payloadBitLength [65] = 8" "payloadBitLength (replicate 7 65) = 56"
  by (simp_all add: payloadBitLength_def length_Uint8Array_bits)

lemma sample_products:
  "Math_ceil (js_times 8 half) = Double 4 0"
  "Math_ceil (js_times 8 NaN) = NaN"
  "Math_ceil (js_times 56 rounded_factor) = Double 50 0"
  by code_simp+

lemma sample_lengths:
  "preliminaryLength [65] half = Double 4 0"
  "preliminaryLength [65] NaN = NaN"
  "preliminaryLength (replicate 7 65) rounded_factor = Double 50 0"
  unfolding preliminaryLength_def sample_payloadBitLength by (rule sample_products)+

lemma sample_sizing_count:
  assumes "0 \<le> c" and "int pl + c \<le> 106"
  shows "createHexagonRings sample [] pl (Double c 0)
     = Some ([createHexagonRing sample 0, createHexagonRing sample 1], 144)"
  using assms
  by (simp add: createHexagonRings_def createHexagonRings_loop.simps Let_def calculateLength_def
      toNumber_def bitCount_def createHexagonRing_def sample_def)

lemma sample_sizing_NaN:
  "createHexagonRings sample [] pl NaN
     = Some ([createHexagonRing sample 0, createHexagonRing sample 1], 144)"
  by (simp add: createHexagonRings_def createHexagonRings_loop.simps Let_def calculateLength_def
      toNumber_def bitCount_def createHexagonRing_def sample_def)

lemma sample_sizing:
  "createHexagonRings sample [] (payloadBitLength [65]) (preliminaryLength [65] half)
     = Some ([createHexagonRing sample 0, createHexagonRing sample 1], 144)"
  unfolding sample_lengths sample_payloadBitLength
  by (rule sample_sizing_count) simp_all


lemma sample_headerLength: "headerLengthOf sample [r, r'] = 38"
  by (simp add: headerLengthOf_def sample_def)

lemma sample_room:
  "calculateMaskCount sample [r, r'] \<le> length [r, r']"
  "headerLengthOf sample [r, r'] \<le> 144"
  by (simp_all add: sample_headerLength) (simp add: sample_def)

lemma sample_checks:
  "0 = CURRENT_VERSION sample"
  "\<not> js_less half (toNumber 0)" "\<not> js_less (MAX_FACTOR_ERROR_CORRECTION_DATA sample) half"
  "\<not> js_less NaN (toNumber 0)" "\<not> js_less (MAX_FACTOR_ERROR_CORRECTION_DATA sample) NaN"
  "\<not> js_less rounded_factor (toNumber 0)"
  "\<not> js_less (MAX_FACTOR_ERROR_CORRECTION_DATA sample) rounded_factor"
  "length [65 :: byte] * 8 \<le> 2 ^ HEADER_LENGTH_PAYLOAD_LENGTH sample * 8"
  "length (replicate 7 (65 :: byte)) * 8 \<le> 2 ^ HEADER_LENGTH_PAYLOAD_LENGTH sample * 8"
  by (simp_all add: sample_def half_def rounded_factor_def toNumber_def)

lemma sample_stream:
  "[encodedStream sample [createHexagonRing sample 0, createHexagonRing sample 1] 144 [65] 0]
     = sample_encoded"
  by code_simp

lemma sample_encode:
  "constructFromPayload sample [] [65] half 0 = Some (Inr (sample_instance, sample_encoded))"
proof -
  have "constructFromPayload sample [] [65] half 0 =
     Some (Inr (\<lparr>this_payload = Some [65],
                 this_hexagonRings = Some (assignHexagonRingData sample
                    [createHexagonRing sample 0, createHexagonRing sample 1] (wholeData [] 144)),
                 this_data = Some (wholeData [] 144)\<rparr>,
                [] @ [encodedStream sample [createHexagonRing sample 0, createHexagonRing sample 1] 144 [65] 0]))"
    by (rule encode_char[OF sample_checks(1) _ sample_checks(2,3,8) sample_sizing sample_room])
       simp
  then show ?thesis
    unfolding append_Nil sample_stream
    by (simp add: sample_instance_def sample_scan_rings_def sample_scan_data_def wholeData_def)
qed

text \<open>The factor \<open>NaN\<close> passes the range check; the sample then sizes two rings and
  encodes as it does for the factor 1/2.\<close>

lemma sample_encode_NaN:
  "constructFromPayload sample [] [65] NaN 0 = Some (Inr (sample_instance, sample_encoded))"
proof -
  have s: "createHexagonRings sample [] (payloadBitLength [65]) (preliminaryLength [65] NaN)
     = Some ([createHexagonRing sample 0, createHexagonRing sample 1], 144)"
    unfolding sample_lengths by (rule sample_sizing_NaN)
  have "constructFromPayload sample [] [65] NaN 0 =
     Some (Inr (\<lparr>this_payload = Some [65],
                 this_hexagonRings = Some (assignHexagonRingData sample
                    [createHexagonRing sample 0, createHexagonRing sample 1] (wholeData [] 144)),
                 this_data = Some (wholeData [] 144)\<rparr>,
                [] @ [encodedStream sample [createHexagonRing sample 0, createHexagonRing sample 1] 144 [65] 0]))"
    by (rule encode_char[OF sample_checks(1) _ sample_checks(4,5,8) s sample_room]) simp
  then show ?thesis
    unfolding append_Nil sample_stream
    by (simp add: sample_instance_def sample_scan_rings_def sample_scan_data_def wholeData_def)
qed


lemma sample_decode:
  "constructFromScan sample sample_encoded sample_scan_rings sample_scan_data
     = Inr (sample_instance, sample_encoded @ [byte_bits 65 @ replicate 98 False])"
  by code_simp

lemma single_ring_decodes:
  "constructFromScan sample single_ring_scan single_ring single_ring_data
     = Inr (\<lparr>this_payload = Some [65], this_hexagonRings = Some single_ring,
              this_data = Some single_ring_data\<rparr>,
            single_ring_scan @ [byte_bits 65 @ replicate 19 False])"
  by code_simp

lemma sample_scan_rings_length: "length sample_scan_rings = 2"
  by (simp add: sample_scan_rings_def assignHexagonRingData_def)

text \<open>The sample meets the contracts of the collaborators.\<close>

lemma length_nat_bits: "length (nat_bits n k) = n"
  by (simp add: nat_bits_def)

lemma length_word16_bits: "length (word16_bits w) = 16"
  by (simp add: word16_bits_def)

lemma bits_nat_roundtrip:
  assumes "k < 2 ^ n"
  shows "bits_nat (nat_bits n k) = k"
proof -
  have "horner_sum of_bool 2 (map (bit k) [0..<n]) = take_bit n k"
    by (rule horner_sum_bit_eq_take_bit)
  also have "take_bit n k = k"
    using assms by (simp add: take_bit_nat_eq_self)
  finally show ?thesis
    by (simp add: bits_nat_def nat_bits_def)
qed

lemma bits_word16_roundtrip: "bits_word16 (word16_bits w) = w"
proof -
  have "horner_sum of_bool 2 (map (bit w) [0..<16]) = take_bit 16 w"
    by (rule horner_sum_bit_eq_take_bit)
  also have "take_bit 16 w = w"
    by (rule take_bit_length_eq[where 'a=16, simplified])
  finally show ?thesis
    by (simp add: bits_word16_def word16_bits_def)
qed

lemma sample_Masking_contract: "Masking_contract sample"
  by (simp add: Masking_contract_def sample_def comp_def)

lemma sample_LDPC_contract: "LDPC_contract sample"
  by (simp add: LDPC_contract_def sample_def)

lemma sample_MaskCount_contract: "MaskCount_contract sample"
  unfolding MaskCount_contract_def
proof (intro conjI allI impI)
  fix rs :: "HexagonRing list"
  show "calculateMaskCount sample rs \<le> length rs" by (simp add: sample_def)
next
  fix rs rs' :: "HexagonRing list"
  assume "map geometry rs = map geometry rs'"
  then have "length rs = length rs'" by (rule map_eq_imp_length_eq)
  then show "calculateMaskCount sample rs = calculateMaskCount sample rs'"
    by (simp add: sample_def)
qed

lemma sample_Capacity_contract: "Capacity_contract sample"
  unfolding Capacity_contract_def
proof
  fix n :: nat
  have "64 + real n * 16 = real (64 + n * 16)" by simp
  then have "nat \<lfloor>64 + real n * 16\<rfloor> = 64 + n * 16"
    by (simp only: floor_of_nat nat_int)
  then have "bitCount sample (createHexagonRing sample n) = 64 + n * 16"
    by (simp add: bitCount_def createHexagonRing_def sample_def)
  then show "headerLengthOf sample (ringsFrom sample 0 (Suc n))
      < headerLengthOf sample (ringsFrom sample 0 n) + bitCount sample (createHexagonRing sample n)"
    by (simp add: headerLengthOf_def ringsFrom_def sample_def)
qed

lemma sample_Header_contract:
  assumes "pl < 256" and "ecl < 256"
  shows "Header_contract sample rings pl ecl"
  unfolding Header_contract_def
proof (intro allI impI)
  fix checksum and masks old :: "bool list" and rs' :: "HexagonRing list"
  assume m: "length masks = calculateMaskCount sample rings"
    and o: "length old = headerLengthOf sample rings"
    and g: "map geometry rs' = map geometry rings"
  have lr: "length rs' = length rings" using g by (rule map_eq_imp_length_eq)
  have lm: "length masks = length rings" using m by (simp add: sample_def)
  have lo: "length old = 36 + length rings" using o by (simp add: headerLengthOf_def sample_def)
  have w: "NimiqodeHeader_write sample = sample_write" by (simp add: sample_def)
  have r: "NimiqodeHeader_read sample = sample_read" by (simp add: sample_def)
  have v: "bits_nat (nat_bits 4 0) = 0" by (rule bits_nat_roundtrip) simp
  have p: "bits_nat (nat_bits 8 pl) = pl" using assms(1) by (intro bits_nat_roundtrip) simp
  have e: "bits_nat (nat_bits 8 ecl) = ecl" using assms(2) by (intro bits_nat_roundtrip) simp
  show "length (NimiqodeHeader_write sample 0 pl (int ecl) checksum masks old) = length old \<and>
        NimiqodeHeader_read sample (NimiqodeHeader_write sample 0 pl (int ecl) checksum masks old) rs'
          = Some (0, pl, ecl, checksum, masks)"
    unfolding w r
    by (simp add: sample_write_def sample_read_def length_nat_bits length_word16_bits lm lo lr
        v p e bits_word16_roundtrip)
qed


section \<open>The claims\<close>

text \<open>
  C5 (empty-payload rejection). The claim holds for the empty payload, for a wrong
  version, and for a factor that compares below 0 or above
  \<open>MAX_FACTOR_ERROR_CORRECTION_DATA\<close>: the encode constructor throws before it creates a
  ring or allocates a bit buffer. It fails for the factor \<open>NaN\<close>, which is outside the
  closed range from 0 to the bound: both comparisons of the range check are false for
  \<open>NaN\<close>, so the constructor goes on. With the sample collaborators it creates two
  rings, allocates the bit-stream of 144 bits and returns an instance.
\<close>

theorem nan_factor_is_encoded:
  "\<not> validFactor sample NaN
   \<and> constructFromPayload sample [] [65] NaN 0 = Some (Inr (sample_instance, sample_encoded))
   \<and> this_hexagonRings sample_instance = Some sample_scan_rings
   \<and> length sample_scan_rings = 2"
  by (simp add: validFactor_def js_leq_def sample_encode_NaN sample_instance_def
      sample_scan_rings_length)

theorem nan_factor_is_encoded_witness:
  "constructFromPayload sample [] [65] NaN 0
     \<noteq> Some (Inl (Illegal_error_correction_factor, unconstructed, []))
   \<and> constructFromPayload sample [] [65] NaN 0
     \<noteq> Some (Inl (Invalid_argument, unconstructed, []))"
  using nan_factor_is_encoded by simp

text \<open>
  C3 (payload size gate). In a call that passes the checks of the version and of the
  factor, a payload of more than \<open>2 ^ HEADER_LENGTH_PAYLOAD_LENGTH\<close> bytes, that is of
  more than \<open>2 ^ HEADER_LENGTH_PAYLOAD_LENGTH * 8\<close> bits, makes the encode constructor
  throw \<open>Your data is too long\<close> before any allocation; a payload at or below that bound
  never meets this error.
\<close>

theorem payload_size_gate:
  assumes "version = CURRENT_VERSION env"
    and "\<not> js_less f (toNumber 0)"
    and "\<not> js_less (MAX_FACTOR_ERROR_CORRECTION_DATA env) f"
  shows "(length payload * 8 > 2 ^ HEADER_LENGTH_PAYLOAD_LENGTH env * 8 \<longrightarrow>
            constructFromPayload env h payload f version
              = Some (Inl (Data_too_long, unconstructed, h)))
       \<and> (length payload * 8 \<le> 2 ^ HEADER_LENGTH_PAYLOAD_LENGTH env * 8 \<longrightarrow>
            (\<forall>this h'. constructFromPayload env h payload f version
                          \<noteq> Some (Inl (Data_too_long, this, h'))))"
proof (intro conjI impI allI)
  assume big: "length payload * 8 > 2 ^ HEADER_LENGTH_PAYLOAD_LENGTH env * 8"
  then have "payload \<noteq> []" by auto
  with big assms
  show "constructFromPayload env h payload f version
          = Some (Inl (Data_too_long, unconstructed, h))"
    by (simp add: constructFromPayload_Data_too_long)
next
  fix this h'
  assume small: "length payload * 8 \<le> 2 ^ HEADER_LENGTH_PAYLOAD_LENGTH env * 8"
  show "constructFromPayload env h payload f version \<noteq> Some (Inl (Data_too_long, this, h'))"
  proof
    assume "constructFromPayload env h payload f version = Some (Inl (Data_too_long, this, h'))"
    with small assms show False
      by (auto simp: constructFromPayload_def Let_def
               split: if_splits option.splits prod.splits sum.splits
               dest: maskHexagonRings_error_is_TypeError)
  qed
qed

theorem payload_size_gate_witness:
  "constructFromPayload sample [] (replicate 17 0) half 0
     = Some (Inl (Data_too_long, unconstructed, []))
   \<and> constructFromPayload sample [] (replicate 16 0) half 0
     \<noteq> Some (Inl (Data_too_long, unconstructed, []))"
  using payload_size_gate[OF sample_checks(1,2,3), of "replicate 17 0" "[]"]
        payload_size_gate[OF sample_checks(1,2,3), of "replicate 16 0" "[]"]
  by (simp add: sample_def)

text \<open>
  C6 (version gate on decode). When the header that the decode constructor reads from
  the scan carries a version other than 0, the constructor throws
  \<open>Unsupported version\<close>, whatever the other fields of the header and the data are;
  the store is untouched.
\<close>

theorem version_gate:
  assumes "NimiqodeHeader_read env
             (BitArray_toArray h (BitArray_sub dat 0 (headerLengthOf env hexagonRings)))
             hexagonRings
             = Some (version, payloadLength, errorCorrectionLength, checksum, hexRingMasks)"
    and "version \<noteq> 0"
  shows "constructFromScan env h hexagonRings dat
           = Inl (Unsupported_version, scanned hexagonRings dat, h)"
  using assms by (simp add: constructFromScan_read)

theorem version_gate_witness:
  "constructFromScan sample all_ones_scan sample_scan_rings sample_scan_data
     = Inl (Unsupported_version, scanned sample_scan_rings sample_scan_data, all_ones_scan)"
proof -
  have "NimiqodeHeader_read sample
          (BitArray_toArray all_ones_scan
             (BitArray_sub sample_scan_data 0 (headerLengthOf sample sample_scan_rings)))
          sample_scan_rings
        = Some (15, 255, 255, - 1, [True, True])"
    by code_simp
  from version_gate[OF this] show ?thesis by simp
qed

text \<open>
  C7 (length-mismatch detection). When the header carries version 0 and the header
  length plus the declared payload length plus the declared error correction length
  differs from the length of the scanned bit-stream, the decode constructor throws
  \<open>Wrong data length\<close>. The store is the one of the call: no copy has been taken,
  nothing has been unmasked, and the result does not depend on the codec.
\<close>

theorem length_mismatch_detected:
  assumes "NimiqodeHeader_read env
             (BitArray_toArray h (BitArray_sub dat 0 (headerLengthOf env hexagonRings)))
             hexagonRings
             = Some (0, payloadLength, errorCorrectionLength, checksum, hexRingMasks)"
    and "headerLengthOf env hexagonRings + payloadLength + errorCorrectionLength
           \<noteq> BitArray_length dat"
  shows "constructFromScan env h hexagonRings dat
           = Inl (Wrong_data_length, scanned hexagonRings dat, h)"
  using assms by (simp add: constructFromScan_read)

theorem length_mismatch_detected_witness:
  "constructFromScan sample version_zero_scan sample_scan_rings sample_scan_data
     = Inl (Wrong_data_length, scanned sample_scan_rings sample_scan_data, version_zero_scan)"
proof -
  have r: "NimiqodeHeader_read sample
          (BitArray_toArray version_zero_scan
             (BitArray_sub sample_scan_data 0 (headerLengthOf sample sample_scan_rings)))
          sample_scan_rings
        = Some (0, 255, 255, - 1, [True, True])"
    by code_simp
  have l: "headerLengthOf sample sample_scan_rings + 255 + 255 \<noteq> BitArray_length sample_scan_data"
    by code_simp
  from length_mismatch_detected[OF r l] show ?thesis by simp
qed

text \<open>
  C9 (decode-side snapshot). The decode constructor unmasks a copy that lives in a buffer
  of its own: whether it returns or throws, every buffer that the store held at the
  call is bit for bit what it was, and so is every view into such a buffer, the
  caller's bit-stream and the data views of the rings among them.
\<close>

theorem decode_keeps_caller_buffers:
  "take (length h) (result_store (constructFromScan env h hexagonRings dat)) = h
   \<and> (\<forall>ba. buffer ba < length h \<longrightarrow>
          BitArray_toArray (result_store (constructFromScan env h hexagonRings dat)) ba
            = BitArray_toArray h ba)"
proof (intro conjI allI impI)
  define h' where "h' = result_store (constructFromScan env h hexagonRings dat)"
  have t: "take (length h) h' = h"
    unfolding h'_def by (rule constructFromScan_store)
  then show "take (length h) (result_store (constructFromScan env h hexagonRings dat)) = h"
    by (simp add: h'_def)
  fix ba :: BitArray
  assume b: "buffer ba < length h"
  from t have len: "length h \<le> length h'"
    by (metis length_take min.cobounded1)
  from t b have "h' ! buffer ba = h ! buffer ba"
    by (metis nth_take)
  with b len
  show "BitArray_toArray (result_store (constructFromScan env h hexagonRings dat)) ba
          = BitArray_toArray h ba"
    by (simp add: BitArray_toArray_def store_get_def h'_def)
qed

theorem decode_keeps_caller_buffers_witness:
  "BitArray_toArray
     (result_store (constructFromScan sample sample_encoded sample_scan_rings sample_scan_data))
     sample_scan_data
   = BitArray_toArray sample_encoded sample_scan_data"
  using decode_keeps_caller_buffers[of sample_encoded sample sample_scan_rings sample_scan_data]
  by (simp add: sample_encoded_def sample_scan_data_def)

text \<open>
  C4 (ring minimum), as amended. An instance that the encode constructor returns has a
  ring set of at least two rings: the ring sizing loop never ends with fewer. An instance
  that the decode constructor returns has the scanned ring set as it was given; the
  decode constructor does not look at its length. The counterexample decodes a scan of
  one ring.
\<close>

theorem ring_minimum_on_encode:
  "(constructFromPayload env h payload f version = Some (Inr (this, h')) \<longrightarrow>
      (\<exists>rings. this_hexagonRings this = Some rings \<and> 2 \<le> length rings))
   \<and> (constructFromScan env hs hexagonRings dat = Inr (this', hs') \<longrightarrow>
      this_hexagonRings this' = Some hexagonRings)"
proof (intro conjI impI)
  assume ok: "constructFromPayload env h payload f version = Some (Inr (this, h'))"
  from encode_return[OF ok] obtain rings dataLength where
    s: "createHexagonRings env [] (payloadBitLength payload) (preliminaryLength payload f)
              = Some (rings, dataLength)"
    and inst: "this = \<lparr>this_payload = Some payload,
               this_hexagonRings = Some (assignHexagonRingData env rings (wholeData h dataLength)),
               this_data = Some (wholeData h dataLength)\<rparr>"
    by blast
  have "2 \<le> length rings" by (rule sizing_shape(2)[OF s])
  moreover from inst have "this_hexagonRings this
      = Some (assignHexagonRingData env rings (wholeData h dataLength))"
    by simp
  ultimately show "\<exists>rings. this_hexagonRings this = Some rings \<and> 2 \<le> length rings"
    by (simp add: length_assignHexagonRingData)
next
  assume "constructFromScan env hs hexagonRings dat = Inr (this', hs')"
  then show "this_hexagonRings this' = Some hexagonRings"
    by (simp add: decode_rings)
qed

theorem ring_minimum_on_encode_witness:
  "(\<exists>rings. this_hexagonRings sample_instance = Some rings \<and> 2 \<le> length rings)
   \<and> this_hexagonRings sample_instance = Some sample_scan_rings"
  using ring_minimum_on_encode[of sample "[]" "[65]" half 0 sample_instance sample_encoded
          sample_encoded sample_scan_rings sample_scan_data sample_instance
          "sample_encoded @ [byte_bits 65 @ replicate 98 False]"]
        sample_encode sample_decode
  by blast

theorem ring_minimum_on_decode_counterexample:
  "constructFromScan sample single_ring_scan single_ring single_ring_data
     = Inr (\<lparr>this_payload = Some [65], this_hexagonRings = Some single_ring,
              this_data = Some single_ring_data\<rparr>,
            single_ring_scan @ [byte_bits 65 @ replicate 19 False])
   \<and> length single_ring = 1"
  by code_simp



text \<open>
  C10 (implicit mask-window clipping). When the masking loop runs with a mask count and
  no given masks, over a view inside its buffer and with at most as many masks as rings,
  it returns one mask for every masked ring position. The sub-range of each masked ring
  starts at \<open>max 0 (hexRingEnd - bitCount)\<close>, so it lies inside the region and has the
  length \<open>min bitCount hexRingEnd\<close>: a ring whose capacity exceeds what is left gets
  a shorter sub-range, possibly an empty one, never one out of bounds. For every masked
  ring, also one with a shortened or empty sub-range, the mask is the one that
  \<open>findBestMask\<close> selects for the bits of the sub-range, it is applied to these bits,
  and it is recorded in the list. When the capacities of the masked rings add up to at
  least the length of the region, the sub-range of the innermost masked ring starts at 0.
\<close>

theorem mask_window_clipping:
  assumes "valid_view h dataToMask" and "maskCount \<le> length hexagonRings"
  shows "\<exists>h' masks.
      maskHexagonRings env hexagonRings (Inl maskCount) dataToMask h = Inr (h', masks)
    \<and> length masks = maskCount
    \<and> (\<forall>k<maskCount.
          let r = length hexagonRings - maskCount + k;
              s = hexRingStartOf env hexagonRings (BitArray_length dataToMask) r;
              e = hexRingEndOf env hexagonRings (BitArray_length dataToMask) r;
              bits = slice (BitArray_toArray h dataToMask) s e
          in s \<le> e \<and> e \<le> BitArray_length dataToMask
             \<and> e - s = min (bitCount env (hexagonRings ! r)) e
             \<and> masks ! k = findBestMask env bits
             \<and> slice (BitArray_toArray h' dataToMask) s e
                 = fitLength bits (applyMask env (masks ! k) bits))
    \<and> (0 < maskCount
         \<and> BitArray_length dataToMask
              \<le> capacity env (drop (length hexagonRings - maskCount) hexagonRings)
        \<longrightarrow> hexRingStartOf env hexagonRings (BitArray_length dataToMask)
              (length hexagonRings - maskCount) = 0)"
proof -
  let ?h' = "maskedStore env hexagonRings None maskCount dataToMask h"
  let ?R = "maskResult env hexagonRings None maskCount dataToMask h"
  have run: "maskHexagonRings env hexagonRings (Inl maskCount) dataToMask h = Inr (?h', snd ?R)"
    by (rule maskHexagonRings_maskedStore[OF assms]) simp
  have toA: "BitArray_toArray ?h' dataToMask = fst ?R"
    by (rule maskedStore_frame(7)[OF assms(1)])
  have rounds: "\<forall>k<maskCount.
          let r = length hexagonRings - maskCount + k;
              s = hexRingStartOf env hexagonRings (BitArray_length dataToMask) r;
              e = hexRingEndOf env hexagonRings (BitArray_length dataToMask) r;
              bits = slice (BitArray_toArray h dataToMask) s e
          in s \<le> e \<and> e \<le> BitArray_length dataToMask
             \<and> e - s = min (bitCount env (hexagonRings ! r)) e
             \<and> snd ?R ! k = findBestMask env bits
             \<and> slice (BitArray_toArray ?h' dataToMask) s e
                 = fitLength bits (applyMask env (snd ?R ! k) bits)"
  proof (intro allI impI)
    fix k assume k: "k < maskCount"
    show "let r = length hexagonRings - maskCount + k;
              s = hexRingStartOf env hexagonRings (BitArray_length dataToMask) r;
              e = hexRingEndOf env hexagonRings (BitArray_length dataToMask) r;
              bits = slice (BitArray_toArray h dataToMask) s e
          in s \<le> e \<and> e \<le> BitArray_length dataToMask
             \<and> e - s = min (bitCount env (hexagonRings ! r)) e
             \<and> snd ?R ! k = findBestMask env bits
             \<and> slice (BitArray_toArray ?h' dataToMask) s e
                 = fitLength bits (applyMask env (snd ?R ! k) bits)"
      unfolding Let_def toA
      using maskResult_ring[OF assms k, of env None] window_bounds[of env hexagonRings]
      by simp
  qed
  have inner: "0 < maskCount
         \<and> BitArray_length dataToMask
              \<le> capacity env (drop (length hexagonRings - maskCount) hexagonRings)
        \<longrightarrow> hexRingStartOf env hexagonRings (BitArray_length dataToMask)
              (length hexagonRings - maskCount) = 0"
  proof
    assume a: "0 < maskCount
         \<and> BitArray_length dataToMask
              \<le> capacity env (drop (length hexagonRings - maskCount) hexagonRings)"
    with assms(2) have "length hexagonRings - maskCount < length hexagonRings" by arith
    from window_innermost[OF this, of env "BitArray_length dataToMask"] a
    show "hexRingStartOf env hexagonRings (BitArray_length dataToMask)
              (length hexagonRings - maskCount) = 0"
      by simp
  qed
  from run rounds inner show ?thesis
    by (intro exI[of _ ?h'] exI[of _ "snd ?R"]) (simp add: length_maskResult(2))
qed

theorem mask_window_clipping_witness:
  "\<exists>h' masks.
      maskHexagonRings sample sample_scan_rings (Inl 2) clipped_data clipped_store = Inr (h', masks)
    \<and> length masks = 2
    \<and> masks ! 0 = findBestMask sample
          (slice (BitArray_toArray clipped_store clipped_data)
             (hexRingStartOf sample sample_scan_rings (BitArray_length clipped_data) 0)
             (hexRingEndOf sample sample_scan_rings (BitArray_length clipped_data) 0))
    \<and> hexRingStartOf sample sample_scan_rings (BitArray_length clipped_data) 0 = 0
    \<and> hexRingEndOf sample sample_scan_rings (BitArray_length clipped_data) 0 = 0"
proof -
  have v: "valid_view clipped_store clipped_data"
    by (simp add: valid_view_def clipped_store_def clipped_data_def)
  have n: "2 \<le> length sample_scan_rings"
    by (simp add: sample_scan_rings_length)
  have c: "0 < (2::nat) \<and> BitArray_length clipped_data
             \<le> capacity sample (drop (length sample_scan_rings - 2) sample_scan_rings)"
    by code_simp
  have e: "hexRingEndOf sample sample_scan_rings (BitArray_length clipped_data) 0 = 0"
    by code_simp
  from mask_window_clipping[OF v n, of sample] obtain h' masks where
    r: "maskHexagonRings sample sample_scan_rings (Inl 2) clipped_data clipped_store = Inr (h', masks)"
       "length masks = 2"
    and k: "\<forall>k<2.
          let r = length sample_scan_rings - 2 + k;
              s = hexRingStartOf sample sample_scan_rings (BitArray_length clipped_data) r;
              e = hexRingEndOf sample sample_scan_rings (BitArray_length clipped_data) r;
              bits = slice (BitArray_toArray clipped_store clipped_data) s e
          in s \<le> e \<and> e \<le> BitArray_length clipped_data
             \<and> e - s = min (bitCount sample (sample_scan_rings ! r)) e
             \<and> masks ! k = findBestMask sample bits
             \<and> slice (BitArray_toArray h' clipped_data) s e
                 = fitLength bits (applyMask sample (masks ! k) bits)"
    and i: "0 < (2::nat)
         \<and> BitArray_length clipped_data
              \<le> capacity sample (drop (length sample_scan_rings - 2) sample_scan_rings)
        \<longrightarrow> hexRingStartOf sample sample_scan_rings (BitArray_length clipped_data)
              (length sample_scan_rings - 2) = 0"
    by blast
  from k have "masks ! 0 = findBestMask sample
          (slice (BitArray_toArray clipped_store clipped_data)
             (hexRingStartOf sample sample_scan_rings (BitArray_length clipped_data) 0)
             (hexRingEndOf sample sample_scan_rings (BitArray_length clipped_data) 0))"
    by (simp add: Let_def sample_scan_rings_length)
  moreover from i c have "hexRingStartOf sample sample_scan_rings (BitArray_length clipped_data) 0 = 0"
    by (simp add: sample_scan_rings_length)
  ultimately show ?thesis using r e by blast
qed

text \<open>
  C8 (masking window and order), as amended. The masking loop, run with a mask count or
  with given masks over a view inside its buffer, gives the outermost ring the sub-range
  that ends at the end of the region and every further masked ring the sub-range that
  ends where the sub-range of the next outer ring starts. The sub-range of the innermost
  masked ring starts at the length of the region less the capacities of the masked
  rings, cut off at 0: the masked window is the trailing sub-range whose length is the
  smaller of the length of the region and the sum of the capacities of the masked rings.
  The bits before the window, the bits of the buffer outside of the view and all other
  buffers are unchanged. The \<open>k\<close>-th mask of the returned list belongs to the \<open>k\<close>-th
  masked ring counted from the innermost one; it is the mask selected for the bits of
  that ring's sub-range on encode and the \<open>k\<close>-th given mask on decode. The
  counterexample masks both rings of the sample, of 144 bits together, over a region of
  106 bits.
\<close>

theorem masking_window_and_order:
  assumes "valid_view h dataToMask" and "maskCount \<le> length hexagonRings"
    and "maskCountOrMasks = Inl maskCount
         \<or> (\<exists>givenMasks. maskCountOrMasks = Inr givenMasks \<and> length givenMasks = maskCount)"
  shows "\<exists>h' masks.
      maskHexagonRings env hexagonRings maskCountOrMasks dataToMask h = Inr (h', masks)
    \<and> length masks = maskCount
    \<and> (\<forall>k<maskCount.
          let r = length hexagonRings - maskCount + k;
              s = hexRingStartOf env hexagonRings (BitArray_length dataToMask) r;
              e = hexRingEndOf env hexagonRings (BitArray_length dataToMask) r;
              bits = slice (BitArray_toArray h dataToMask) s e
          in e = (if k + 1 < maskCount
                  then hexRingStartOf env hexagonRings (BitArray_length dataToMask) (r + 1)
                  else BitArray_length dataToMask)
             \<and> slice (BitArray_toArray h' dataToMask) s e
                 = fitLength bits (applyMask env (masks ! k) bits)
             \<and> masks ! k = (case maskCountOrMasks of
                              Inl n \<Rightarrow> findBestMask env bits
                            | Inr givenMasks \<Rightarrow> givenMasks ! k))
    \<and> (0 < maskCount \<longrightarrow>
          hexRingStartOf env hexagonRings (BitArray_length dataToMask)
              (length hexagonRings - maskCount)
            = BitArray_length dataToMask
                - capacity env (drop (length hexagonRings - maskCount) hexagonRings))
    \<and> take (BitArray_length dataToMask
               - capacity env (drop (length hexagonRings - maskCount) hexagonRings))
          (BitArray_toArray h' dataToMask)
        = take (BitArray_length dataToMask
                 - capacity env (drop (length hexagonRings - maskCount) hexagonRings))
            (BitArray_toArray h dataToMask)
    \<and> length h' = length h
    \<and> (\<forall>a. a \<noteq> buffer dataToMask \<longrightarrow> h' ! a = h ! a)
    \<and> take (startOffset dataToMask) (h' ! buffer dataToMask)
        = take (startOffset dataToMask) (h ! buffer dataToMask)
    \<and> drop (endOffset dataToMask) (h' ! buffer dataToMask)
        = drop (endOffset dataToMask) (h ! buffer dataToMask)"
proof -
  define gm where "gm = (case maskCountOrMasks of Inl n \<Rightarrow> None | Inr ms \<Rightarrow> Some ms)"
  let ?h' = "maskedStore env hexagonRings gm maskCount dataToMask h"
  let ?R = "maskResult env hexagonRings gm maskCount dataToMask h"
  have mode: "maskCountOrMasks = Inl maskCount \<and> gm = None
       \<or> (\<exists>ms. maskCountOrMasks = Inr ms \<and> gm = Some ms \<and> length ms = maskCount)"
    using assms(3) by (auto simp: gm_def)
  have run: "maskHexagonRings env hexagonRings maskCountOrMasks dataToMask h = Inr (?h', snd ?R)"
    by (rule maskHexagonRings_maskedStore[OF assms(1,2) mode])
  note fr = maskedStore_frame[OF assms(1), where env = env and rings = hexagonRings
      and gm = gm and maskCount = maskCount]
  have rounds: "\<forall>k<maskCount.
          let r = length hexagonRings - maskCount + k;
              s = hexRingStartOf env hexagonRings (BitArray_length dataToMask) r;
              e = hexRingEndOf env hexagonRings (BitArray_length dataToMask) r;
              bits = slice (BitArray_toArray h dataToMask) s e
          in e = (if k + 1 < maskCount
                  then hexRingStartOf env hexagonRings (BitArray_length dataToMask) (r + 1)
                  else BitArray_length dataToMask)
             \<and> slice (BitArray_toArray ?h' dataToMask) s e
                 = fitLength bits (applyMask env (snd ?R ! k) bits)
             \<and> snd ?R ! k = (case maskCountOrMasks of
                              Inl n \<Rightarrow> findBestMask env bits
                            | Inr givenMasks \<Rightarrow> givenMasks ! k)"
  proof (intro allI impI)
    fix k assume k: "k < maskCount"
    define r where "r = length hexagonRings - maskCount + k"
    define s where "s = hexRingStartOf env hexagonRings (BitArray_length dataToMask) r"
    define e where "e = hexRingEndOf env hexagonRings (BitArray_length dataToMask) r"
    define bits where "bits = slice (BitArray_toArray h dataToMask) s e"
    note ring = maskResult_ring[OF assms(1,2) k, of env gm, folded r_def, folded s_def e_def,
        folded bits_def]
    have adj: "e = (if k + 1 < maskCount
                  then hexRingStartOf env hexagonRings (BitArray_length dataToMask) (r + 1)
                  else BitArray_length dataToMask)"
    proof (cases "k + 1 < maskCount")
      case True
      with assms(2) have "Suc r < length hexagonRings" by (simp add: r_def)
      from window_adjacent[OF this, of env "BitArray_length dataToMask"] True
      show ?thesis by (simp add: e_def)
    next
      case False
      with k assms(2) have "r = length hexagonRings - 1" by (simp add: r_def)
      with False window_outermost[of env hexagonRings "BitArray_length dataToMask"]
      show ?thesis by (simp add: e_def)
    qed
    have m: "snd ?R ! k = (case maskCountOrMasks of
                              Inl n \<Rightarrow> findBestMask env bits
                            | Inr givenMasks \<Rightarrow> givenMasks ! k)"
    proof -
      from mode show ?thesis
      proof
        assume "maskCountOrMasks = Inl maskCount \<and> gm = None"
        then show ?thesis using ring(2) by simp
      next
        assume "\<exists>ms. maskCountOrMasks = Inr ms \<and> gm = Some ms \<and> length ms = maskCount"
        then obtain ms where ms: "maskCountOrMasks = Inr ms" "gm = Some ms" "length ms = maskCount"
          by blast
        have "length ms - (maskCount - 1 - k) - 1 = k" using k ms(3) by simp
        then show ?thesis using ring(2) ms by simp
      qed
    qed
    show "let r = length hexagonRings - maskCount + k;
              s = hexRingStartOf env hexagonRings (BitArray_length dataToMask) r;
              e = hexRingEndOf env hexagonRings (BitArray_length dataToMask) r;
              bits = slice (BitArray_toArray h dataToMask) s e
          in e = (if k + 1 < maskCount
                  then hexRingStartOf env hexagonRings (BitArray_length dataToMask) (r + 1)
                  else BitArray_length dataToMask)
             \<and> slice (BitArray_toArray ?h' dataToMask) s e
                 = fitLength bits (applyMask env (snd ?R ! k) bits)
             \<and> snd ?R ! k = (case maskCountOrMasks of
                              Inl n \<Rightarrow> findBestMask env bits
                            | Inr givenMasks \<Rightarrow> givenMasks ! k)"
      unfolding Let_def r_def[symmetric] s_def[symmetric] e_def[symmetric] bits_def[symmetric] fr(7)
      using adj ring(1) m by blast
  qed
  have inner: "0 < maskCount \<longrightarrow>
          hexRingStartOf env hexagonRings (BitArray_length dataToMask)
              (length hexagonRings - maskCount)
            = BitArray_length dataToMask
                - capacity env (drop (length hexagonRings - maskCount) hexagonRings)"
  proof
    assume "0 < maskCount"
    with assms(2) have "length hexagonRings - maskCount < length hexagonRings" by arith
    from window_innermost[OF this]
    show "hexRingStartOf env hexagonRings (BitArray_length dataToMask)
              (length hexagonRings - maskCount)
            = BitArray_length dataToMask
                - capacity env (drop (length hexagonRings - maskCount) hexagonRings)" .
  qed
  have before: "take (BitArray_length dataToMask
               - capacity env (drop (length hexagonRings - maskCount) hexagonRings))
          (BitArray_toArray ?h' dataToMask)
        = take (BitArray_length dataToMask
                 - capacity env (drop (length hexagonRings - maskCount) hexagonRings))
            (BitArray_toArray h dataToMask)"
    unfolding fr(7) by (rule maskResult_untouched[OF assms(1,2)])
  have others: "\<forall>a. a \<noteq> buffer dataToMask \<longrightarrow> ?h' ! a = h ! a"
    using fr(2) by blast
  from run rounds inner before others fr(1,4,5) show ?thesis
    by (intro exI[of _ ?h'] exI[of _ "snd ?R"]) (simp add: length_maskResult(2))
qed


theorem masking_window_and_order_witness:
  "\<exists>h' masks.
      maskHexagonRings sample sample_scan_rings (Inr [True, False]) sample_region all_ones_scan
        = Inr (h', masks)
    \<and> length masks = 2
    \<and> masks ! 1 = [True, False] ! 1
    \<and> hexRingStartOf sample sample_scan_rings (BitArray_length sample_region) 0
        = BitArray_length sample_region - capacity sample (drop 0 sample_scan_rings)
    \<and> take (startOffset sample_region) (h' ! buffer sample_region)
        = take (startOffset sample_region) (all_ones_scan ! buffer sample_region)"
proof -
  have v: "valid_view all_ones_scan sample_region"
    by (simp add: valid_view_def all_ones_scan_def sample_region_def)
  have n: "2 \<le> length sample_scan_rings"
    by (simp add: sample_scan_rings_length)
  have m: "(Inr [True, False] :: nat + bool list) = Inl 2
         \<or> (\<exists>givenMasks. (Inr [True, False] :: nat + bool list) = Inr givenMasks
                \<and> length givenMasks = 2)"
    by simp
  from masking_window_and_order[OF v n m, of sample] obtain h' masks where
    r: "maskHexagonRings sample sample_scan_rings (Inr [True, False]) sample_region all_ones_scan
          = Inr (h', masks)"
       "length masks = 2"
    and k: "\<forall>k<2.
          let r = length sample_scan_rings - 2 + k;
              s = hexRingStartOf sample sample_scan_rings (BitArray_length sample_region) r;
              e = hexRingEndOf sample sample_scan_rings (BitArray_length sample_region) r;
              bits = slice (BitArray_toArray all_ones_scan sample_region) s e
          in e = (if k + 1 < 2
                  then hexRingStartOf sample sample_scan_rings (BitArray_length sample_region) (r + 1)
                  else BitArray_length sample_region)
             \<and> slice (BitArray_toArray h' sample_region) s e
                 = fitLength bits (applyMask sample (masks ! k) bits)
             \<and> masks ! k = (case (Inr [True, False] :: nat + bool list) of
                              Inl n \<Rightarrow> findBestMask sample bits
                            | Inr givenMasks \<Rightarrow> givenMasks ! k)"
    and i: "0 < (2::nat) \<longrightarrow>
          hexRingStartOf sample sample_scan_rings (BitArray_length sample_region)
              (length sample_scan_rings - 2)
            = BitArray_length sample_region
                - capacity sample (drop (length sample_scan_rings - 2) sample_scan_rings)"
    and f: "take (startOffset sample_region) (h' ! buffer sample_region)
        = take (startOffset sample_region) (all_ones_scan ! buffer sample_region)"
    apply (elim exE conjE)
    apply (rule that)
    apply assumption
    apply assumption
    apply assumption
    apply assumption
    apply assumption
    done
  have "(1::nat) < 2" by simp
  from k[rule_format, OF this] have "masks ! 1 = [True, False] ! 1"
    by (simp add: Let_def)
  moreover from i have "hexRingStartOf sample sample_scan_rings (BitArray_length sample_region) 0
        = BitArray_length sample_region - capacity sample (drop 0 sample_scan_rings)"
    by (simp add: sample_scan_rings_length)
  ultimately show ?thesis using r f by blast
qed

theorem masking_window_counterexample:
  "maskHexagonRings sample sample_scan_rings (Inl 2) sample_region all_ones_scan
     = Inr ([replicate 38 True @ replicate 106 False], [True, True])
   \<and> capacity sample sample_scan_rings = 144
   \<and> BitArray_length sample_region = 106"
  by code_simp

text \<open>
  C1 (round trip). Let the collaborators meet their contracts: applying a mask twice
  restores the bits, decoding an encoded word returns the bits that were encoded, the
  mask count depends on the geometry of the rings alone and is at most their number,
  every further ring carries more bits than it adds to the header, and reading a header
  that was written with version 0 and the lengths of this encoding returns the written
  fields. Let the current version be 0, the payload non-empty and of at most
  \<open>2 ^ HEADER_LENGTH_PAYLOAD_LENGTH\<close> bytes, the factor in the closed range from 0 to
  \<open>MAX_FACTOR_ERROR_CORRECTION_DATA\<close>, and the product of the payload bit length and the
  factor a finite double. Then the encode constructor returns an instance, and the decode
  constructor, run on the rings and the data of that instance in the store that the
  encoding left, returns an instance whose payload is the encoded payload.
\<close>

theorem roundtrip:
  fixes env :: "'m env"
  assumes contracts: "Masking_contract env" "LDPC_contract env" "MaskCount_contract env"
    and growth: "Capacity_contract env"
    and header: "\<forall>rings dataLength.
        createHexagonRings env [] (payloadBitLength payload) (preliminaryLength payload f)
          = Some (rings, dataLength)
        \<longrightarrow> Header_contract env rings (payloadBitLength payload)
              (nat (finalLength env rings dataLength payload))"
    and version: "CURRENT_VERSION env = 0"
    and payload: "payload \<noteq> []" "length payload \<le> 2 ^ HEADER_LENGTH_PAYLOAD_LENGTH env"
    and factor: "validFactor env f"
    and finite: "js_times (payloadBitLength payload) f \<noteq> Infinity"
  shows "\<exists>this h1 rings dat this' h2.
      constructFromPayload env h payload f 0 = Some (Inr (this, h1))
    \<and> this_hexagonRings this = Some rings \<and> this_data this = Some dat
    \<and> constructFromScan env h1 rings dat = Inr (this', h2)
    \<and> this_payload this' = Some payload"
proof -
  from factor have f: "f \<noteq> NaN" "\<not> js_less f (toNumber 0)"
    "\<not> js_less (MAX_FACTOR_ERROR_CORRECTION_DATA env) f"
    by (simp_all add: validFactor_def js_leq_def)
  have "preliminaryLength payload f \<noteq> Infinity"
    using finite by (cases "js_times (payloadBitLength payload) f")
      (simp_all add: preliminaryLength_def)
  with preliminaryLength_cases[OF f(2) payload(1)] f(1) obtain c where
    c: "preliminaryLength payload f = Double c 0" "0 \<le> c"
    by blast
  from createHexagonRings_by_contract[OF growth c(2), of "payloadBitLength payload"]
  obtain rings dataLength where
    sizing: "createHexagonRings env [] (payloadBitLength payload) (preliminaryLength payload f)
               = Some (rings, dataLength)"
    unfolding c(1) by blast
  note l = encode_lengths[OF sizing c]
  have mc: "calculateMaskCount env rings \<le> length rings"
    using contracts(3) unfolding MaskCount_contract_def by blast
  have bound: "length payload * 8 \<le> 2 ^ HEADER_LENGTH_PAYLOAD_LENGTH env * 8"
    using payload(2) by simp
  have room: "headerLengthOf env rings + payloadBitLength payload \<le> dataLength"
    using l(3) by simp
  have enc: "constructFromPayload env h payload f 0 =
     Some (Inr (\<lparr>this_payload = Some payload,
                 this_hexagonRings = Some (assignHexagonRingData env rings (wholeData h dataLength)),
                 this_data = Some (wholeData h dataLength)\<rparr>,
                h @ [encodedStream env rings dataLength payload 0]))"
    by (rule encode_char[OF version[symmetric] payload(1) f(2,3) bound sizing mc l(7)])
  from header sizing
  have hc: "Header_contract env rings (payloadBitLength payload)
              (nat (finalLength env rings dataLength payload))"
    by blast
  from decode_of_encode[OF contracts room hc, of h] obtain h2 where
    dec: "constructFromScan env (h @ [encodedStream env rings dataLength payload 0])
               (assignHexagonRingData env rings (wholeData h dataLength)) (wholeData h dataLength)
           = Inr ((scanned (assignHexagonRingData env rings (wholeData h dataLength))
                     (wholeData h dataLength))\<lparr>this_payload := Some payload\<rparr>, h2)"
    by blast
  show ?thesis
    unfolding enc using dec by (simp add: scanned_def)
qed

theorem roundtrip_witness:
  "\<exists>this h1 rings dat this' h2.
      constructFromPayload sample [] [65] half 0 = Some (Inr (this, h1))
    \<and> this_hexagonRings this = Some rings \<and> this_data this = Some dat
    \<and> constructFromScan sample h1 rings dat = Inr (this', h2)
    \<and> this_payload this' = Some [65]"
proof -
  have hdr: "\<forall>rings dataLength.
        createHexagonRings sample [] (payloadBitLength [65]) (preliminaryLength [65] half)
          = Some (rings, dataLength)
        \<longrightarrow> Header_contract sample rings (payloadBitLength [65])
              (nat (finalLength sample rings dataLength [65]))"
  proof (intro allI impI)
    fix rings dataLength
    assume "createHexagonRings sample [] (payloadBitLength [65]) (preliminaryLength [65] half)
              = Some (rings, dataLength)"
    then have d: "dataLength = 144" unfolding sample_sizing by simp
    have "nat (finalLength sample rings dataLength [65]) < 256"
      by (simp add: finalLength_def d)
    moreover have "payloadBitLength [65] < 256" by (simp add: sample_payloadBitLength)
    ultimately show "Header_contract sample rings (payloadBitLength [65])
              (nat (finalLength sample rings dataLength [65]))"
      by (intro sample_Header_contract)
  qed
  have c: "CURRENT_VERSION sample = 0" "[65 :: byte] \<noteq> []"
    "length [65 :: byte] \<le> 2 ^ HEADER_LENGTH_PAYLOAD_LENGTH sample"
    by (simp_all add: sample_def)
  have v: "validFactor sample half"
    by (simp add: validFactor_def js_leq_def half_def toNumber_def sample_def)
  have p: "js_times (payloadBitLength [65]) half \<noteq> Infinity"
    unfolding sample_payloadBitLength by code_simp
  show ?thesis
    by (rule roundtrip[OF sample_Masking_contract sample_LDPC_contract sample_MaskCount_contract
          sample_Capacity_contract hdr c v p])
qed

end
